theory Spec2Isabelle
  imports Main
begin

section \<open>Strings\<close>

text \<open>
  The script builds command lines and log messages from Python strings. The helpers below
  are the string functions it calls: \<^verbatim>\<open>str(int)\<close>, \<^verbatim>\<open>str.split\<close>, \<^verbatim>\<open>str.replace\<close>
  (for single characters), \<^verbatim>\<open>str.join\<close> and \<^verbatim>\<open>shlex.join\<close>.
\<close>

fun show_nat :: "nat \<Rightarrow> string" where
  "show_nat n =
     (if n < 10 then [''0123456789'' ! n]
      else show_nat (n div 10) @ [''0123456789'' ! (n mod 10)])"

definition show_int :: "int \<Rightarrow> string" where
  "show_int i = (if i < 0 then CHR ''-'' # show_nat (nat (- i)) else show_nat (nat i))"

text \<open>\<^verbatim>\<open>s.split(sep)\<close> for a one-character separator: always at least one piece.\<close>

fun split_on :: "char \<Rightarrow> string \<Rightarrow> string list" where
  "split_on d [] = [[]]"
| "split_on d (c # cs) =
     (if c = d then [] # split_on d cs
      else (case split_on d cs of
              [] \<Rightarrow> [[c]]
            | w # ws \<Rightarrow> (c # w) # ws))"

text \<open>\<^verbatim>\<open>sep.join(parts)\<close>.\<close>

fun join_with :: "string \<Rightarrow> string list \<Rightarrow> string" where
  "join_with sep [] = []"
| "join_with sep [x] = x"
| "join_with sep (x # y # ys) = x @ sep @ join_with sep (y # ys)"

text \<open>\<^verbatim>\<open>s.replace(a, b)\<close> for one-character \<open>a\<close> and an arbitrary replacement \<open>b\<close>.\<close>

definition replace_char :: "char \<Rightarrow> string \<Rightarrow> string \<Rightarrow> string" where
  "replace_char a b s = concat (map (\<lambda>c. if c = a then b else [c]) s)"

text \<open>
  \<^verbatim>\<open>shlex.quote\<close>: the empty string becomes two quotes, a string of safe characters only
  (\<^verbatim>\<open>[A-Za-z0-9_@%+=:,./-]\<close>) is returned as it is, anything else is wrapped in single
  quotes with every single quote inside replaced by \<^verbatim>\<open>'"'"'\<close>.
\<close>

definition safe_chars :: string where
  "safe_chars =
     ''abcdefghijklmnopqrstuvwxyzABCDEFGHIJKLMNOPQRSTUVWXYZ0123456789_@%+=:,./-''"

definition shlex_quote :: "string \<Rightarrow> string" where
  "shlex_quote s =
     (if s = [] then [CHR 0x27, CHR 0x27]
      else if list_all (\<lambda>c. c \<in> set safe_chars) s then s
      else [CHR 0x27]
           @ replace_char (CHR 0x27) [CHR 0x27, CHR 0x22, CHR 0x27, CHR 0x22, CHR 0x27] s
           @ [CHR 0x27])"

definition shlex_join :: "string list \<Rightarrow> string" where
  "shlex_join args = join_with '' '' (map shlex_quote args)"

section \<open>Paths and the file system\<close>

text \<open>
  A \<^verbatim>\<open>pathlib.Path\<close> is its list of components, relative or absolute. The file system is a
  tree rooted at \<^verbatim>\<open>/\<close>; a directory lists its entries in the order \<^verbatim>\<open>iterdir\<close> yields them.
  The components \<^verbatim>\<open>.\<close> and \<^verbatim>\<open>..\<close> get no special treatment: paths are the normalised ones
  that \<^verbatim>\<open>pathlib\<close> builds from ordinary names.
\<close>

datatype path = Rel "string list" | Abs "string list"

datatype node = File string | Dir "(string \<times> node) list"

fun parts :: "path \<Rightarrow> string list" where
  "parts (Rel ps) = ps"
| "parts (Abs ps) = ps"

text \<open>\<^verbatim>\<open>str(path)\<close> on a POSIX host.\<close>

fun str_path :: "path \<Rightarrow> string" where
  "str_path (Rel ps) = (if ps = [] then ''.'' else join_with ''/'' ps)"
| "str_path (Abs ps) = CHR ''/'' # join_with ''/'' ps"

text \<open>\<^verbatim>\<open>path / name\<close> for a name without separator: an empty name or \<^verbatim>\<open>.\<close> adds nothing.\<close>

fun joinpath :: "path \<Rightarrow> string \<Rightarrow> path" where
  "joinpath (Rel ps) n = Rel (if n = [] \<or> n = ''.'' then ps else ps @ [n])"
| "joinpath (Abs ps) n = Abs (if n = [] \<or> n = ''.'' then ps else ps @ [n])"

text \<open>The path of a directory entry, as \<^verbatim>\<open>iterdir\<close> yields it, and \<^verbatim>\<open>path.name\<close>.\<close>

fun child :: "path \<Rightarrow> string \<Rightarrow> path" where
  "child (Rel ps) n = Rel (ps @ [n])"
| "child (Abs ps) n = Abs (ps @ [n])"

definition path_name :: "path \<Rightarrow> string" where
  "path_name p = (if parts p = [] then [] else last (parts p))"

text \<open>How the operating system resolves a path against the working directory.\<close>

fun resolve :: "string list \<Rightarrow> path \<Rightarrow> string list" where
  "resolve wd (Rel ps) = wd @ ps"
| "resolve wd (Abs ps) = ps"

definition absolute :: "string list \<Rightarrow> path \<Rightarrow> path" where
  "absolute wd p = Abs (resolve wd p)"

fun lookup :: "string list \<Rightarrow> node \<Rightarrow> node option" where
  "lookup [] n = Some n"
| "lookup (c # cs) n =
     (case n of
        File x \<Rightarrow> None
      | Dir es \<Rightarrow> (case map_of es c of None \<Rightarrow> None | Some m \<Rightarrow> lookup cs m))"

definition is_dir :: "node \<Rightarrow> string list \<Rightarrow> bool" where
  "is_dir t p = (case lookup p t of Some (Dir es) \<Rightarrow> True | _ \<Rightarrow> False)"

text \<open>Rewriting the entry list of the directory at a path; anything else is left alone.\<close>

fun alter_dir :: "string list \<Rightarrow> ((string \<times> node) list \<Rightarrow> (string \<times> node) list) \<Rightarrow> node \<Rightarrow> node" where
  "alter_dir [] f n = (case n of File x \<Rightarrow> File x | Dir es \<Rightarrow> Dir (f es))"
| "alter_dir (c # cs) f n =
     (case n of
        File x \<Rightarrow> File x
      | Dir es \<Rightarrow> Dir (map (\<lambda>(k, v). if k = c then (k, alter_dir cs f v) else (k, v)) es))"

definition remove_path :: "string list \<Rightarrow> node \<Rightarrow> node" where
  "remove_path p t =
     (if p = [] then Dir []
      else alter_dir (butlast p) (filter (\<lambda>(k, v). k \<noteq> last p)) t)"

section \<open>State, effects and exceptions\<close>

text \<open>
  The configuration record \<^verbatim>\<open>_RunConfig\<close>, with the fields of the source.
\<close>

record run_config =
  src_repository :: string
  dst_repository :: string
  target_dir :: path
  is_public :: bool
  is_archive :: bool
  git_user_name :: "string option"
  git_user_email :: "string option"
  clean :: bool
  default_timeout_sec :: int
  dry_run :: bool
  verbose :: nat

text \<open>
  Exceptions are values. \<^verbatim>\<open>_ScriptError\<close> carries its message; the others are the Python
  exceptions the calls of the script raise.
\<close>

datatype exn =
    ScriptError string
  | TimeoutExpired "string list" int
  | FileNotFoundError
  | NotADirectoryError
  | OSError
  | IndexError
  | ValueError string

text \<open>
  Everything the script does to the outside is recorded, in order, in a trace: a call of
  the logger (with the level and the message object), a process created by \<^verbatim>\<open>Popen\<close>, a
  \<^verbatim>\<open>kill\<close>, a \<^verbatim>\<open>shutil.rmtree\<close> that removed a directory, a change of working directory.
\<close>

datatype level = DEBUG | INFO | WARNING | ERROR

datatype msg = Str string | Config run_config | Exn exn

datatype event =
    Log level msg
  | Spawn "string list"
  | Kill "string list"
  | Rmtree "string list"
  | Chdir "string list"

record state =
  fs :: node
  cwd :: "string list"
  loglevel :: level
  trace :: "event list"

text \<open>
  An external process is outside the script: the world says how a command ends and what
  file system it leaves. It may depend on the whole state, the trace included, so that a
  tool can answer differently each time. \<open>Launch_failed\<close> is \<^verbatim>\<open>Popen\<close> raising because the
  executable cannot be started; no process exists then.
\<close>

datatype outcome = Launch_failed | Exited int | Timed_out

type_synonym world = "string list \<Rightarrow> int \<Rightarrow> state \<Rightarrow> outcome \<times> node"

type_synonym 'a action = "state \<Rightarrow> (exn + 'a) \<times> state"

definition bnd :: "'a action \<Rightarrow> ('a \<Rightarrow> 'b action) \<Rightarrow> 'b action" where
  "bnd m f s = (case m s of (Inl e, s') \<Rightarrow> (Inl e, s') | (Inr a, s') \<Rightarrow> f a s')"

definition emit :: "event list \<Rightarrow> state \<Rightarrow> state" where
  "emit evs s = s\<lparr>trace := trace s @ evs\<rparr>"

definition logger_info :: "string \<Rightarrow> unit action" where
  "logger_info m s = (Inr (), emit [Log INFO (Str m)] s)"

definition logger_error :: "string \<Rightarrow> unit action" where
  "logger_error m s = (Inr (), emit [Log ERROR (Str m)] s)"

text \<open>What the handlers write: the records at or above the logger's level.\<close>

fun level_no :: "level \<Rightarrow> nat" where
  "level_no DEBUG = 10"
| "level_no INFO = 20"
| "level_no WARNING = 30"
| "level_no ERROR = 40"

fun written :: "level \<Rightarrow> event \<Rightarrow> bool" where
  "written l (Log k m) = (level_no l \<le> level_no k)"
| "written l e = False"

definition console :: "state \<Rightarrow> event list" where
  "console s = filter (written (loglevel s)) (trace s)"

text \<open>
  The commands of the processes created, the directories removed and the commands of the
  processes killed, in order.
\<close>

fun spawned :: "event list \<Rightarrow> string list list" where
  "spawned [] = []"
| "spawned (Spawn c # es) = c # spawned es"
| "spawned (e # es) = spawned es"

fun removed :: "event list \<Rightarrow> string list list" where
  "removed [] = []"
| "removed (Rmtree p # es) = p # removed es"
| "removed (e # es) = removed es"

fun killed :: "event list \<Rightarrow> string list list" where
  "killed [] = []"
| "killed (Kill c # es) = c # killed es"
| "killed (e # es) = killed es"

definition command_line :: "string list \<Rightarrow> string" where
  "command_line args = ''=== command: '' @ [CHR 0x60] @ shlex_join args @ [CHR 0x60]"

section \<open>The primitives of the script\<close>

text \<open>\<^verbatim>\<open>os.chdir\<close>, \<^verbatim>\<open>Path.iterdir\<close>, \<^verbatim>\<open>Path.exists\<close> and \<^verbatim>\<open>shutil.rmtree\<close>.\<close>

definition chdir :: "path \<Rightarrow> unit action" where
  "chdir p s =
     (let q = resolve (cwd s) p in
      case lookup q (fs s) of
        None \<Rightarrow> (Inl FileNotFoundError, s)
      | Some (File x) \<Rightarrow> (Inl NotADirectoryError, s)
      | Some (Dir es) \<Rightarrow> (Inr (), emit [Chdir q] (s\<lparr>cwd := q\<rparr>)))"

definition iterdir :: "path \<Rightarrow> (path list) action" where
  "iterdir p s =
     (case lookup (resolve (cwd s) p) (fs s) of
        None \<Rightarrow> (Inl FileNotFoundError, s)
      | Some (File x) \<Rightarrow> (Inl NotADirectoryError, s)
      | Some (Dir es) \<Rightarrow> (Inr (map (\<lambda>(k, v). child p k) es), s))"

definition exists_path :: "path \<Rightarrow> state \<Rightarrow> bool" where
  "exists_path p s = (lookup (resolve (cwd s) p) (fs s) \<noteq> None)"

text \<open>
  \<^verbatim>\<open>shutil.rmtree(path)\<close> removes a directory with all it holds, raises on a path that is
  missing or is a regular file, and cannot remove \<^verbatim>\<open>/\<close> itself once it has emptied it.
\<close>

definition rmtree :: "path \<Rightarrow> unit action" where
  "rmtree p s =
     (let q = resolve (cwd s) p in
      case lookup q (fs s) of
        None \<Rightarrow> (Inl FileNotFoundError, s)
      | Some (File x) \<Rightarrow> (Inl NotADirectoryError, s)
      | Some (Dir es) \<Rightarrow>
          (if q = [] then (Inl OSError, emit [Rmtree q] (s\<lparr>fs := remove_path q (fs s)\<rparr>))
           else (Inr (), emit [Rmtree q] (s\<lparr>fs := remove_path q (fs s)\<rparr>))))"

text \<open>
  \<^verbatim>\<open>_working_directory\<close>: the context manager saves the working directory, changes it
  (outside the \<^verbatim>\<open>try\<close>, so a failure there leaves without running the body), runs the body
  and changes back in the \<^verbatim>\<open>finally\<close> clause, whatever the body did. An exception of the
  restoring \<^verbatim>\<open>chdir\<close> replaces the body's result.
\<close>

definition working_directory :: "path \<Rightarrow> 'a action \<Rightarrow> 'a action" where
  "working_directory p body s =
     (let prev_cwd = cwd s in
      case chdir p s of
        (Inl e, s1) \<Rightarrow> (Inl e, s1)
      | (Inr u, s1) \<Rightarrow>
          (case body s1 of
             (r, s2) \<Rightarrow>
               (case chdir (Abs prev_cwd) s2 of
                  (Inl e, s3) \<Rightarrow> (Inl e, s3)
                | (Inr v, s3) \<Rightarrow> (r, s3))))"

text \<open>
  \<^verbatim>\<open>_run_command\<close>: log the command line; in a dry run return. Otherwise create the
  process and wait for it. A non-zero exit status raises \<^verbatim>\<open>_ScriptError\<close> inside the \<^verbatim>\<open>try\<close>;
  the handler kills the process and re-raises whatever it caught, the \<^verbatim>\<open>TimeoutExpired\<close> of
  \<^verbatim>\<open>communicate\<close> included.
\<close>

definition run_command :: "world \<Rightarrow> string list \<Rightarrow> bool \<Rightarrow> int \<Rightarrow> unit action" where
  "run_command W command_args dry timeout_sec s =
     (let s1 = emit [Log INFO (Str (command_line command_args))] s in
      if dry then (Inr (), s1)
      else
        (case W command_args timeout_sec s1 of
           (Launch_failed, t) \<Rightarrow> (Inl FileNotFoundError, s1)
         | (Timed_out, t) \<Rightarrow>
             (Inl (TimeoutExpired command_args timeout_sec),
              emit [Spawn command_args, Kill command_args] (s1\<lparr>fs := t\<rparr>))
         | (Exited returncode, t) \<Rightarrow>
             (if returncode \<noteq> 0 then
                (Inl (ScriptError (''command failed with exit status '' @ show_int returncode)),
                 emit [Spawn command_args, Kill command_args] (s1\<lparr>fs := t\<rparr>))
              else
                (Inr (),
                 emit [Spawn command_args, Log INFO (Str ''=== success command'')]
                   (s1\<lparr>fs := t\<rparr>)))))"

section \<open>The steps\<close>

definition return :: "'a \<Rightarrow> 'a action" where
  "return a s = (Inr a, s)"

definition raise :: "exn \<Rightarrow> 'a action" where
  "raise e s = (Inl e, s)"

text \<open>
  \<^verbatim>\<open>_check_tools\<close>: three version commands in one \<^verbatim>\<open>try\<close>; only \<^verbatim>\<open>_ScriptError\<close> is caught,
  logged with its message and turned into \<^verbatim>\<open>False\<close>.
\<close>

definition check_tools :: "world \<Rightarrow> bool \<Rightarrow> int \<Rightarrow> bool action" where
  "check_tools W dry timeout_sec s =
     (case bnd (run_command W [''git'', ''--version''] dry timeout_sec) (\<lambda>u.
           bnd (run_command W [''git'', ''filter-repo'', ''--version''] dry timeout_sec) (\<lambda>u.
           run_command W [''gh'', ''--version''] dry timeout_sec)) s of
        (Inr u, s') \<Rightarrow> (Inr True, s')
      | (Inl (ScriptError e), s') \<Rightarrow>
          bnd (logger_error (''Could not find tool: '' @ e)) (\<lambda>u. return False) s'
      | (Inl e, s') \<Rightarrow> (Inl e, s'))"

text \<open>\<^verbatim>\<open>_filter_history\<close>: clone, then rewrite the history inside the clone.\<close>

definition filter_history :: "world \<Rightarrow> string \<Rightarrow> path \<Rightarrow> path \<Rightarrow> bool \<Rightarrow> int \<Rightarrow> unit action" where
  "filter_history W src target clone_dir dry timeout_sec s =
     bnd (run_command W
            [''gh'', ''repo'', ''clone'', src, str_path (absolute (cwd s) clone_dir)]
            dry timeout_sec) (\<lambda>u.
     working_directory (absolute (cwd s) clone_dir)
       (run_command W
          [''git'', ''filter-repo'', ''--path'',
           replace_char (CHR 0x5C) ''/'' (str_path target)]
          dry timeout_sec)) s"

text \<open>
  \<^verbatim>\<open>_change_root_directory\<close>. The first loop moves every entry of the target directory to
  the root, under a temporary name when the root has an entry of that name; the second
  removes every entry the root had at the start, \<^verbatim>\<open>.git\<close> apart; the third gives the
  temporary names their final names.

  The names of the root entries are kept in a Python set. A set of strings iterates in an
  order that the interpreter's hash seed fixes for the run; it is not the order of
  insertion. That order is a parameter of the step: \<open>order names\<close> is the sequence in which
  the set built from the list \<open>names\<close> yields its elements. Membership in the set is
  membership in the list.
\<close>

type_synonym set_order = "string list \<Rightarrow> string list"

fun move_targets ::
  "world \<Rightarrow> string list \<Rightarrow> bool \<Rightarrow> int \<Rightarrow> path list \<Rightarrow> (string \<times> string) list
     \<Rightarrow> ((string \<times> string) list) action" where
  "move_targets W root_folders dry timeout_sec [] skip_folders = return skip_folders"
| "move_targets W root_folders dry timeout_sec (filepath # rest) skip_folders =
     (let collides = path_name filepath \<in> set root_folders;
          new_name = (if collides then path_name filepath @ ''_test'' else path_name filepath);
          skip_folders' =
            (if collides then skip_folders @ [(new_name, path_name filepath)] else skip_folders)
      in bnd (logger_info (''move: '' @ str_path filepath @ '' to '' @ new_name)) (\<lambda>u.
         bnd (run_command W [''git'', ''mv'', str_path filepath, new_name] dry timeout_sec) (\<lambda>u.
         move_targets W root_folders dry timeout_sec rest skip_folders')))"

fun remove_roots :: "string list \<Rightarrow> unit action" where
  "remove_roots [] = return ()"
| "remove_roots (old_path # rest) =
     (if old_path = ''.git'' then remove_roots rest
      else bnd (logger_info (''remove: '' @ old_path)) (\<lambda>u.
           bnd (rmtree (Rel [old_path])) (\<lambda>u.
           remove_roots rest)))"

fun rename_back :: "world \<Rightarrow> bool \<Rightarrow> int \<Rightarrow> (string \<times> string) list \<Rightarrow> unit action" where
  "rename_back W dry timeout_sec [] = return ()"
| "rename_back W dry timeout_sec ((old_filename, new_filename) # rest) =
     bnd (logger_info (''move: '' @ old_filename @ '' to '' @ new_filename)) (\<lambda>u.
     bnd (run_command W [''git'', ''mv'', old_filename, new_filename] dry timeout_sec) (\<lambda>u.
     rename_back W dry timeout_sec rest))"

definition root_folders_of :: "path list \<Rightarrow> string list" where
  "root_folders_of entries = map path_name entries"

definition change_root_directory ::
  "world \<Rightarrow> set_order \<Rightarrow> path \<Rightarrow> path \<Rightarrow> bool \<Rightarrow> int \<Rightarrow> unit action" where
  "change_root_directory W order clone_dir target dry timeout_sec s =
     working_directory (absolute (cwd s) clone_dir)
       (bnd (iterdir (Rel [])) (\<lambda>root_entries.
        bnd (iterdir target) (\<lambda>target_files.
        bnd (move_targets W (root_folders_of root_entries) dry timeout_sec target_files [])
          (\<lambda>skip_folders.
        bnd (remove_roots (order (root_folders_of root_entries))) (\<lambda>u.
        rename_back W dry timeout_sec skip_folders))))) s"

text \<open>\<^verbatim>\<open>_git_commit\<close>, \<^verbatim>\<open>_git_rename\<close>, \<^verbatim>\<open>_create_gh_repo_and_set_upstream\<close>, \<^verbatim>\<open>_git_push\<close>,
  \<^verbatim>\<open>_gh_repo_archive\<close>.\<close>

definition git_commit ::
  "world \<Rightarrow> path \<Rightarrow> string option \<Rightarrow> string option \<Rightarrow> string \<Rightarrow> bool \<Rightarrow> int \<Rightarrow> unit action" where
  "git_commit W git_directory user_name user_email message dry timeout_sec s =
     working_directory (absolute (cwd s) git_directory)
       (bnd (case user_name of
               None \<Rightarrow> return ()
             | Some n \<Rightarrow>
                 run_command W [''git'', ''config'', ''--local'', ''user.name'', n] dry timeout_sec)
          (\<lambda>u.
        bnd (case user_email of
               None \<Rightarrow> return ()
             | Some e \<Rightarrow>
                 run_command W [''git'', ''config'', ''--local'', ''user.email'', e] dry timeout_sec)
          (\<lambda>u.
        bnd (run_command W [''git'', ''add'', ''.''] dry timeout_sec) (\<lambda>u.
        run_command W [''git'', ''commit'', ''-m'', message] dry timeout_sec)))) s"

text \<open>The rename map is a Python dict: its items in insertion order.\<close>

fun rename_loop :: "world \<Rightarrow> bool \<Rightarrow> int \<Rightarrow> (path \<times> path) list \<Rightarrow> bool \<Rightarrow> bool action" where
  "rename_loop W dry timeout_sec [] is_rename = return is_rename"
| "rename_loop W dry timeout_sec ((src, dst) # rest) is_rename =
     (\<lambda>s. if \<not> exists_path src s then
             bnd (logger_info (str_path src @ '' does not exist. skip.'')) (\<lambda>u.
             rename_loop W dry timeout_sec rest is_rename) s
           else
             bnd (run_command W [''git'', ''mv'', str_path src, str_path dst] dry timeout_sec) (\<lambda>u.
             rename_loop W dry timeout_sec rest True) s)"

definition git_rename :: "world \<Rightarrow> path \<Rightarrow> (path \<times> path) list \<Rightarrow> bool \<Rightarrow> int \<Rightarrow> bool action" where
  "git_rename W git_directory names dry timeout_sec =
     working_directory git_directory (rename_loop W dry timeout_sec names False)"

definition create_gh_repo_and_set_upstream ::
  "world \<Rightarrow> path \<Rightarrow> string \<Rightarrow> string \<Rightarrow> bool \<Rightarrow> bool \<Rightarrow> int \<Rightarrow> unit action" where
  "create_gh_repo_and_set_upstream W git_repository repository_name remote_name public dry timeout_set =
     bnd (run_command W
            [''gh'', ''repo'', ''create'', repository_name,
             if public then ''--public'' else ''--private'']
            dry timeout_set) (\<lambda>u.
     working_directory git_repository
       (run_command W
          [''git'', ''remote'', ''add'', remote_name,
           ''https://github.com/'' @ repository_name @ ''.git'']
          dry timeout_set))"

definition git_push :: "world \<Rightarrow> path \<Rightarrow> string \<Rightarrow> string \<Rightarrow> bool \<Rightarrow> int \<Rightarrow> unit action" where
  "git_push W git_directory remote_name branch_name dry timeout_sec =
     working_directory git_directory
       (run_command W [''git'', ''push'', remote_name, branch_name] dry timeout_sec)"

definition gh_repo_archive :: "world \<Rightarrow> string \<Rightarrow> bool \<Rightarrow> int \<Rightarrow> unit action" where
  "gh_repo_archive W repository_name dry timeout_sec =
     run_command W [''gh'', ''repo'', ''archive'', repository_name, ''-y''] dry timeout_sec"

section \<open>The pipeline\<close>

definition setup_logger :: "level \<Rightarrow> unit action" where
  "setup_logger l s = (Inr (), s\<lparr>loglevel := l\<rparr>)"

definition verbosity_level :: "nat \<Rightarrow> level" where
  "verbosity_level v = (if v = 0 then ERROR else if v = 1 then WARNING else if v = 2 then INFO else DEBUG)"

definition rename_files :: "(path \<times> path) list" where
  "rename_files = [(Rel [''index.md''], Rel [''README.md''])]"

text \<open>
  The pipeline after the directory of the clone is known: the tool check, then one step
  after the other, each run only if every step before it returned.
\<close>

definition pipeline :: "world \<Rightarrow> set_order \<Rightarrow> run_config \<Rightarrow> path \<Rightarrow> unit action" where
  "pipeline W order config repository_dir =
     bnd (check_tools W (dry_run config) (default_timeout_sec config)) (\<lambda>is_tools.
     if \<not> is_tools then raise (ValueError ''could not find tools.'')
     else
     bnd (filter_history W (src_repository config) (target_dir config) repository_dir
            (dry_run config) (default_timeout_sec config)) (\<lambda>u.
     bnd (change_root_directory W order repository_dir (target_dir config)
            (dry_run config) (default_timeout_sec config)) (\<lambda>u.
     bnd (git_commit W repository_dir (git_user_name config) (git_user_email config)
            ''chore: change root directory.'' (dry_run config) (default_timeout_sec config)) (\<lambda>u.
     bnd (git_rename W repository_dir rename_files
            (dry_run config) (default_timeout_sec config)) (\<lambda>is_rename.
     bnd (if is_rename then
            git_commit W repository_dir (git_user_name config) (git_user_email config)
              ''chore: change filenames.'' (dry_run config) (default_timeout_sec config)
          else return ()) (\<lambda>u.
     bnd (create_gh_repo_and_set_upstream W repository_dir (dst_repository config) ''upstream''
            (is_public config) (dry_run config) (default_timeout_sec config)) (\<lambda>u.
     bnd (git_push W repository_dir ''upstream'' ''master''
            (dry_run config) (default_timeout_sec config)) (\<lambda>u.
     bnd (if is_archive config then
            gh_repo_archive W (dst_repository config) (dry_run config) (default_timeout_sec config)
          else return ()) (\<lambda>u.
     if clean config then rmtree repository_dir else return ())))))))))"

text \<open>
  \<^verbatim>\<open>_main\<close>, from the parsed configuration on: the logger is set up, the configuration
  logged, the clone's directory is \<^verbatim>\<open>data/raw\<close> joined with the second piece of the source
  repository's name (an \<^verbatim>\<open>IndexError\<close> when the name has no slash).
\<close>

definition main :: "world \<Rightarrow> set_order \<Rightarrow> run_config \<Rightarrow> unit action" where
  "main W order config =
     bnd (setup_logger (verbosity_level (verbose config))) (\<lambda>u.
     bnd (\<lambda>s. (Inr (), emit [Log INFO (Config config)] s)) (\<lambda>u.
     (case split_on (CHR ''/'') (src_repository config) of
        owner # name # rest \<Rightarrow> pipeline W order config (joinpath (Rel [''data'', ''raw'']) name)
      | _ \<Rightarrow> raise IndexError)))"

text \<open>The script's last lines: an exception is logged and the exit status is 1.\<close>

definition script :: "world \<Rightarrow> set_order \<Rightarrow> run_config \<Rightarrow> state \<Rightarrow> int \<times> state" where
  "script W order config s =
     (case main W order config s of
        (Inl e, s') \<Rightarrow> (1, emit [Log ERROR (Exn e)] s')
      | (Inr u, s') \<Rightarrow> (0, s'))"

section \<open>A reference behaviour of the external tools\<close>

text \<open>
  What the layout of the clone is after a step depends on what \<^verbatim>\<open>git mv\<close>, \<^verbatim>\<open>gh repo clone\<close>
  and \<^verbatim>\<open>git filter-repo\<close> do. The world \<open>tools\<close> is their expected behaviour on the tree:
  \<^item> \<^verbatim>\<open>git mv a b\<close> renames \<open>a\<close> to \<open>b\<close>, or moves it into \<open>b\<close> when that is a directory;
    it fails (status 128) when \<open>a\<close> is missing, the destination exists or its directory
    does not;
  \<^item> \<^verbatim>\<open>gh repo clone r d\<close> writes the working tree of the remote \<open>r\<close> to the new path \<open>d\<close>,
    and fails (status 1) when the remote is unknown or \<open>d\<close> exists;
  \<^item> \<^verbatim>\<open>git filter-repo --path p\<close> keeps, in the working directory, \<^verbatim>\<open>.git\<close> and what lies on
    or under \<open>p\<close>;
  \<^item> every other command exits with status 0 and changes nothing.
  The steps themselves are defined for every world; only statements about the resulting
  layout name this one.
\<close>

definition parse_path :: "string \<Rightarrow> path" where
  "parse_path x =
     (let ps = filter (\<lambda>c. c \<noteq> []) (split_on (CHR ''/'') x)
      in if x \<noteq> [] \<and> hd x = CHR ''/'' then Abs ps else Rel ps)"

definition insert_entry :: "string list \<Rightarrow> node \<Rightarrow> node \<Rightarrow> node" where
  "insert_entry p n t = alter_dir (butlast p) (\<lambda>es. es @ [(last p, n)]) t"

definition tool_mv :: "string list \<Rightarrow> path \<Rightarrow> path \<Rightarrow> node \<Rightarrow> outcome \<times> node" where
  "tool_mv wd src dst t =
     (let a = resolve wd src;
          b0 = resolve wd dst;
          b = (if is_dir t b0 then b0 @ [last a] else b0)
      in case lookup a t of
           None \<Rightarrow> (Exited 128, t)
         | Some n \<Rightarrow>
             (if a = [] \<or> b = [] \<or> lookup b t \<noteq> None \<or> \<not> is_dir (remove_path a t) (butlast b)
              then (Exited 128, t)
              else (Exited 0, insert_entry b n (remove_path a t))))"

fun put_path :: "string list \<Rightarrow> node \<Rightarrow> node \<Rightarrow> node" where
  "put_path [] n t = n"
| "put_path (c # cs) n t =
     (case t of
        File x \<Rightarrow> File x
      | Dir es \<Rightarrow>
          (case map_of es c of
             None \<Rightarrow> Dir (es @ [(c, put_path cs n (Dir []))])
           | Some m \<Rightarrow> Dir (map (\<lambda>(k, v). if k = c then (k, put_path cs n v) else (k, v)) es)))"

definition tool_clone :: "(string \<Rightarrow> node option) \<Rightarrow> string \<Rightarrow> string list \<Rightarrow> node \<Rightarrow> outcome \<times> node" where
  "tool_clone remote r d t =
     (case remote r of
        None \<Rightarrow> (Exited 1, t)
      | Some n \<Rightarrow>
          (if lookup d t \<noteq> None \<or> lookup d (put_path d n t) \<noteq> Some n then (Exited 1, t)
           else (Exited 0, put_path d n t)))"

fun restrict_path :: "string list \<Rightarrow> node \<Rightarrow> (string \<times> node) list" where
  "restrict_path [] n = (case n of File x \<Rightarrow> [] | Dir es \<Rightarrow> es)"
| "restrict_path (c # cs) n =
     (case n of
        File x \<Rightarrow> []
      | Dir es \<Rightarrow>
          (case map_of es c of
             None \<Rightarrow> []
           | Some (File x) \<Rightarrow> (if cs = [] then [(c, File x)] else [])
           | Some (Dir ds) \<Rightarrow> [(c, Dir (restrict_path cs (Dir ds)))]))"

definition tool_filter :: "string list \<Rightarrow> path \<Rightarrow> node \<Rightarrow> outcome \<times> node" where
  "tool_filter wd p t =
     (case lookup wd t of
        Some (Dir es) \<Rightarrow>
          (if map_of es ''.git'' = None then (Exited 128, t)
           else (Exited 0,
                 alter_dir wd
                   (\<lambda>es. filter (\<lambda>(k, v). k = ''.git'') es
                         @ restrict_path (parts p) (Dir (filter (\<lambda>(k, v). k \<noteq> ''.git'') es)))
                   t))
      | _ \<Rightarrow> (Exited 128, t))"

definition tools :: "(string \<Rightarrow> node option) \<Rightarrow> world" where
  "tools remote args timeout_sec s =
     (if length args = 4 \<and> take 2 args = [''git'', ''mv''] then
        tool_mv (cwd s) (parse_path (args ! 2)) (parse_path (args ! 3)) (fs s)
      else if length args = 5 \<and> take 3 args = [''gh'', ''repo'', ''clone''] then
        tool_clone remote (args ! 3) (resolve (cwd s) (parse_path (args ! 4))) (fs s)
      else if length args = 4 \<and> take 3 args = [''git'', ''filter-repo'', ''--path''] then
        tool_filter (cwd s) (parse_path (args ! 3)) (fs s)
      else (Exited 0, fs s))"

section \<open>Notions used in the statements\<close>

text \<open>
  The events a run has added to the trace; the command lines it has logged; whether it
  has logged any.
\<close>

definition new_events :: "state \<Rightarrow> state \<Rightarrow> event list" where
  "new_events s s' = drop (length (trace s)) (trace s')"

fun logged_commands :: "event list \<Rightarrow> string list" where
  "logged_commands [] = []"
| "logged_commands (Log l (Str m) # es) =
     (if take 13 m = ''=== command: '' then m # logged_commands es else logged_commands es)"
| "logged_commands (e # es) = logged_commands es"

definition issued :: "event list \<Rightarrow> bool" where
  "issued evs = (\<exists>c. Log INFO (Str (command_line c)) \<in> set evs)"

text \<open>
  The events that matter for the order of root flattening: a logged command line, a
  process, a removed directory. \<open>issue\<close> is what the runner adds of them for one command
  that it completes. \<open>flatten_plan\<close> is the full sequence of a flattening that runs to its
  end, for the names \<open>roots\<close> and \<open>names\<close> that the root and the target directory list at
  the start and the sequence \<open>removal\<close> in which the set of the root names iterates: the
  moves of every target entry, then the removal of every name of \<open>removal\<close> but \<^verbatim>\<open>.git\<close>, then
  the renames of the entries that were moved under a temporary name.
\<close>

fun significant :: "event \<Rightarrow> bool" where
  "significant (Log l (Str m)) = (take 13 m = ''=== command: '')"
| "significant (Log l m) = False"
| "significant (Spawn c) = True"
| "significant (Rmtree q) = True"
| "significant (Kill c) = False"
| "significant (Chdir q) = False"

definition issue :: "bool \<Rightarrow> string list \<Rightarrow> event list" where
  "issue dry c = Log INFO (Str (command_line c)) # (if dry then [] else [Spawn c])"

definition flatten_plan ::
  "bool \<Rightarrow> string list \<Rightarrow> path \<Rightarrow> string list \<Rightarrow> string list \<Rightarrow> string list \<Rightarrow> event list" where
  "flatten_plan dry C target roots removal names =
     concat (map (\<lambda>n. issue dry [''git'', ''mv'', str_path (child target n),
                                  if n \<in> set roots then n @ ''_test'' else n]) names)
     @ map (\<lambda>r. Rmtree (C @ [r])) (filter (\<lambda>r. r \<noteq> ''.git'') removal)
     @ concat (map (\<lambda>n. issue dry [''git'', ''mv'', n @ ''_test'', n])
                (filter (\<lambda>n. n \<in> set roots) names))"

text \<open>
  The events that the rename step may add to the trace for a rename map: changes of the
  working directory, and for a pair of the map the record that its source is skipped, its
  \<^verbatim>\<open>git mv\<close> command line, the process of that command, its kill and the record of its
  success.
\<close>

definition rename_command :: "path \<times> path \<Rightarrow> string list" where
  "rename_command p = [''git'', ''mv'', str_path (fst p), str_path (snd p)]"

definition skip_message :: "path \<times> path \<Rightarrow> string" where
  "skip_message p = str_path (fst p) @ '' does not exist. skip.''"

fun rename_event :: "(path \<times> path) list \<Rightarrow> event \<Rightarrow> bool" where
  "rename_event names (Chdir q) = True"
| "rename_event names (Rmtree q) = False"
| "rename_event names (Spawn c) = (c \<in> set (map rename_command names))"
| "rename_event names (Kill c) = (c \<in> set (map rename_command names))"
| "rename_event names (Log l m) =
     (l = INFO
      \<and> (m = Str ''=== success command''
         \<or> m \<in> set (map (\<lambda>p. Str (command_line (rename_command p))) names)
         \<or> m \<in> set (map (\<lambda>p. Str (skip_message p)) names)))"

text \<open>
  The runner kills a process exactly when its command has failed, by a status other than 0
  or by exceeding the timeout. A sequence of events is quiet after a kill when the first
  kill in it is followed by no new process and no removal.
\<close>

fun quiet_after_kill :: "event list \<Rightarrow> bool" where
  "quiet_after_kill [] = True"
| "quiet_after_kill (Kill c # es) = (spawned es = [] \<and> removed es = [])"
| "quiet_after_kill (e # es) = quiet_after_kill es"

text \<open>The exception a step ended with, if any, and the state it left.\<close>

definition ended :: "(exn + 'a) \<times> state \<Rightarrow> exn option \<times> state" where
  "ended x = (case fst x of Inl e \<Rightarrow> Some e | Inr a \<Rightarrow> None, snd x)"

text \<open>Names a path string can carry, and directory nodes.\<close>

definition valid_name :: "string \<Rightarrow> bool" where
  "valid_name n = (n \<noteq> [] \<and> CHR ''/'' \<notin> set n)"

fun is_Dir :: "node \<Rightarrow> bool" where
  "is_Dir (Dir es) = True"
| "is_Dir (File x) = False"

section \<open>Notions used in the proofs\<close>

definition keeps_cwd :: "'a action \<Rightarrow> bool" where
  "keeps_cwd m = (\<forall>s. cwd (snd (m s)) = cwd s)"

text \<open>
  After an action that works in the directory \<open>D\<close>: the working directory is the one it
  started in when that still exists; otherwise the action may have been left in \<open>D\<close> by
  the exception of the restoring \<^verbatim>\<open>chdir\<close>.
\<close>

definition cwd_restored :: "string list \<Rightarrow> 'a action \<Rightarrow> state \<Rightarrow> bool" where
  "cwd_restored D m s =
     ((is_dir (fs (snd (m s))) (cwd s) \<longrightarrow> cwd (snd (m s)) = cwd s)
      \<and> (cwd (snd (m s)) = cwd s
         \<or> cwd (snd (m s)) = D
           \<and> (fst (m s) = Inl FileNotFoundError \<or> fst (m s) = Inl NotADirectoryError)))"

text \<open>An action only adds events of one kind to the trace.\<close>

definition harmless :: "(event \<Rightarrow> bool) \<Rightarrow> bool" where
  "harmless Q = ((\<forall>l m. Q (Log l m)) \<and> (\<forall>c. Q (Kill c)) \<and> (\<forall>q. Q (Chdir q)))"

definition only :: "(event \<Rightarrow> bool) \<Rightarrow> 'a action \<Rightarrow> bool" where
  "only Q m = (\<forall>s. \<exists>evs. trace (snd (m s)) = trace s @ evs \<and> list_all Q evs)"

text \<open>
  An action adds no process, removal or kill to the trace; an action is quiet after a kill
  and has killed nothing when it returns.
\<close>

definition silent :: "'a action \<Rightarrow> bool" where
  "silent m = (\<forall>s. \<exists>evs. trace (snd (m s)) = trace s @ evs
                   \<and> spawned evs = [] \<and> removed evs = [] \<and> killed evs = [])"

definition halts :: "'a action \<Rightarrow> bool" where
  "halts m = (\<forall>s. \<exists>evs. trace (snd (m s)) = trace s @ evs \<and> quiet_after_kill evs
                  \<and> (\<forall>a. fst (m s) = Inr a \<longrightarrow> killed evs = []))"

text \<open>The pipeline after the tool check.\<close>

definition pipeline_tail :: "world \<Rightarrow> set_order \<Rightarrow> run_config \<Rightarrow> path \<Rightarrow> unit action" where
  "pipeline_tail W order config repository_dir =
     bnd (filter_history W (src_repository config) (target_dir config) repository_dir
            (dry_run config) (default_timeout_sec config)) (\<lambda>u.
     bnd (change_root_directory W order repository_dir (target_dir config)
            (dry_run config) (default_timeout_sec config)) (\<lambda>u.
     bnd (git_commit W repository_dir (git_user_name config) (git_user_email config)
            ''chore: change root directory.'' (dry_run config) (default_timeout_sec config)) (\<lambda>u.
     bnd (git_rename W repository_dir rename_files
            (dry_run config) (default_timeout_sec config)) (\<lambda>is_rename.
     bnd (if is_rename then
            git_commit W repository_dir (git_user_name config) (git_user_email config)
              ''chore: change filenames.'' (dry_run config) (default_timeout_sec config)
          else return ()) (\<lambda>u.
     bnd (create_gh_repo_and_set_upstream W repository_dir (dst_repository config) ''upstream''
            (is_public config) (dry_run config) (default_timeout_sec config)) (\<lambda>u.
     bnd (git_push W repository_dir ''upstream'' ''master''
            (dry_run config) (default_timeout_sec config)) (\<lambda>u.
     bnd (if is_archive config then
            gh_repo_archive W (dst_repository config) (dry_run config) (default_timeout_sec config)
          else return ()) (\<lambda>u.
     if clean config then rmtree repository_dir else return ()))))))))"

fun before_flattening :: "event \<Rightarrow> bool" where
  "before_flattening (Rmtree q) = False"
| "before_flattening (Spawn c) = (take 2 c \<noteq> [''git'', ''mv''])"
| "before_flattening e = True"

text \<open>
  An action run in the directory \<open>C\<close> adds significant events that begin the plan, and
  all of it when it returns, with a result that satisfies \<open>P\<close>.
\<close>

definition follows :: "string list \<Rightarrow> event list \<Rightarrow> ('a \<Rightarrow> bool) \<Rightarrow> 'a action \<Rightarrow> bool" where
  "follows C plan P m =
     (\<forall>s. cwd s = C \<longrightarrow>
        (\<exists>evs. trace (snd (m s)) = trace s @ evs \<and> cwd (snd (m s)) = C
           \<and> (\<exists>rest. plan = filter significant evs @ rest)
           \<and> (\<forall>a. fst (m s) = Inr a \<longrightarrow> filter significant evs = plan \<and> P a)))"

definition new_name_of :: "string list \<Rightarrow> string \<Rightarrow> string" where
  "new_name_of roots n = (if n \<in> set roots then n @ ''_test'' else n)"

definition shape :: "(string \<times> node) list \<Rightarrow> (string \<times> bool) list" where
  "shape es = map (\<lambda>(k, v). (k, is_Dir v)) es"

section \<open>Worlds and states used as concrete inputs\<close>

definition never_returns :: world where
  "never_returns args timeout_sec s = (Timed_out, fs s)"

definition fails_on :: "string list \<Rightarrow> int \<Rightarrow> world" where
  "fails_on c rc args timeout_sec s = (if args = c then Exited rc else Exited 0, fs s)"

text \<open>A world in which every command succeeds and leaves an empty file system.\<close>

definition wipes :: world where
  "wipes args timeout_sec s = (Exited 0, Dir [])"

text \<open>
  Iteration orders of a set: the names of \<open>pref\<close> first, in that order, then the others as
  listed; each name of the list comes once.
\<close>

definition listed_first :: "string list \<Rightarrow> set_order" where
  "listed_first pref names =
     filter (\<lambda>n. n \<in> set names) (remdups pref) @ filter (\<lambda>n. n \<notin> set pref) (remdups names)"

definition start_state :: state where
  "start_state = \<lparr>fs = Dir [(''work'', Dir [])], cwd = [''work''], loglevel = WARNING, trace = []\<rparr>"

text \<open>
  A configuration that extracts the directory \<^verbatim>\<open>b\<close> of \<^verbatim>\<open>org/mono\<close>, the remote repository it
  names, and four states in which the clone \<^verbatim>\<open>data/raw/mono\<close> is on disk already: as
  the history filter leaves it, with a second directory beside \<^verbatim>\<open>b\<close>, with a regular file
  \<^verbatim>\<open>b\<close> at its root, and after flattening.
\<close>

definition example_config :: run_config where
  "example_config =
     \<lparr>src_repository = ''org/mono'', dst_repository = ''org/widget'',
      target_dir = Rel [''b''], is_public = False, is_archive = False,
      git_user_name = None, git_user_email = None, clean = False,
      default_timeout_sec = 30, dry_run = False, verbose = 2\<rparr>"

definition example_remote :: "string \<Rightarrow> node option" where
  "example_remote r =
     (if r = ''org/mono'' then
        Some (Dir [(''.git'', Dir []),
                   (''docs'', Dir [(''guide.md'', File ''G'')]),
                   (''b'', Dir [(''a.txt'', File ''A''),
                                (''b'', Dir [(''c'', File ''C'')]),
                                (''index.md'', File ''I'')])])
      else None)"

definition clone_dir_example :: path where
  "clone_dir_example = Rel [''data'', ''raw'', ''mono'']"

definition in_clone :: "(string \<times> node) list \<Rightarrow> state" where
  "in_clone es =
     \<lparr>fs = Dir [(''work'', Dir [(''data'', Dir [(''raw'', Dir [(''mono'', Dir es)])])])],
      cwd = [''work''], loglevel = WARNING, trace = []\<rparr>"

definition cloned_state :: state where
  "cloned_state =
     in_clone [(''.git'', Dir []),
               (''b'', Dir [(''a.txt'', File ''A''), (''b'', Dir [(''c'', File ''C'')])])]"

definition crowded_state :: state where
  "crowded_state =
     in_clone [(''.git'', Dir []),
               (''b'', Dir [(''a.txt'', File ''A''), (''b'', Dir [(''c'', File ''C'')])]),
               (''docs'', Dir [(''guide.md'', File ''G'')])]"

definition blocked_state :: state where
  "blocked_state =
     in_clone [(''.git'', Dir []),
               (''b'', File ''x''),
               (''libs'', Dir [(''widget'', Dir [(''a.txt'', File ''A''),
                                                 (''b'', Dir [(''c'', File ''C'')])])])]"

definition flattened_state :: state where
  "flattened_state = in_clone [(''.git'', Dir []), (''index.md'', File ''I'')]"

section \<open>Basic facts\<close>

lemma emit_simps [simp]:
  "fs (emit evs s) = fs s" "cwd (emit evs s) = cwd s" "loglevel (emit evs s) = loglevel s"
  "trace (emit evs s) = trace s @ evs"
  by (simp_all add: emit_def)

lemma emit_emit [simp]: "emit b (emit a s) = emit (a @ b) s"
  by (simp add: emit_def)

lemma listed_first_iterates:
  "distinct (listed_first pref names)" "set (listed_first pref names) = set names"
  by (auto simp: listed_first_def)

lemma bnd_return [simp]: "bnd (return a) f s = f a s"
  by (simp add: bnd_def return_def)

lemma bnd_raise [simp]: "bnd (raise e) f s = (Inl e, s)"
  by (simp add: bnd_def raise_def)

lemma bnd_logger_info: "bnd (logger_info m) f s = f () (emit [Log INFO (Str m)] s)"
  by (simp add: bnd_def logger_info_def)

lemma run_command_dry [simp]:
  "run_command W c True t s = (Inr (), emit [Log INFO (Str (command_line c))] s)"
  by (simp add: run_command_def)

lemma run_command_ScriptError:
  "fst (run_command W c dry t s) = Inl (ScriptError m) \<Longrightarrow>
     \<exists>rc. rc \<noteq> 0 \<and> m = ''command failed with exit status '' @ show_int rc"
  by (auto simp: run_command_def Let_def split: if_splits prod.splits outcome.splits)

lemma new_events_append [simp]: "trace s' = trace s @ evs \<Longrightarrow> new_events s s' = evs"
  by (simp add: new_events_def)

lemma spawned_append [simp]: "spawned (a @ b) = spawned a @ spawned b"
  by (induction a rule: spawned.induct) simp_all

lemma removed_append [simp]: "removed (a @ b) = removed a @ removed b"
  by (induction a rule: removed.induct) simp_all

lemma run_command_effect:
  assumes "run_command W c dry t s = (r, s')"
  shows "\<exists>evs. trace s' = trace s @ Log INFO (Str (command_line c)) # evs
           \<and> cwd s' = cwd s
           \<and> (\<forall>m. Log INFO (Str m) \<in> set evs \<longrightarrow> m = ''=== success command'')
           \<and> (dry \<longrightarrow> evs = [] \<and> fs s' = fs s \<and> r = Inr ())
           \<and> (\<not> dry \<and> r = Inr () \<longrightarrow> spawned evs = [c])"
  using assms
  by (auto simp: run_command_def Let_def split: prod.splits outcome.splits if_splits)

section \<open>The command runner\<close>

text \<open>
  C3, as the code has it. When the process exits with a status other than 0 the runner
  raises \<^verbatim>\<open>_ScriptError\<close>, whose message carries the status, after killing the process.
  When the process exceeds the timeout the runner kills it and the \<^verbatim>\<open>TimeoutExpired\<close> of
  \<^verbatim>\<open>communicate\<close> itself reaches the caller: it is not turned into \<^verbatim>\<open>_ScriptError\<close>.
\<close>

theorem run_command_failure_kinds:
  "(W c t (emit [Log INFO (Str (command_line c))] s) = (Exited rc, n) \<and> rc \<noteq> 0 \<longrightarrow>
      fst (run_command W c False t s)
        = Inl (ScriptError (''command failed with exit status '' @ show_int rc))
      \<and> trace (snd (run_command W c False t s))
        = trace s @ [Log INFO (Str (command_line c)), Spawn c, Kill c])
   \<and> (W c t (emit [Log INFO (Str (command_line c))] s) = (Timed_out, n) \<longrightarrow>
      fst (run_command W c False t s) = Inl (TimeoutExpired c t)
      \<and> trace (snd (run_command W c False t s))
        = trace s @ [Log INFO (Str (command_line c)), Spawn c, Kill c])"
  by (simp add: run_command_def)

theorem run_command_failure_kinds_witness:
  "fst (run_command (fails_on [''gh'', ''--version''] 2) [''gh'', ''--version''] False 30 start_state)
     = Inl (ScriptError ''command failed with exit status 2'')
   \<and> fst (run_command never_returns [''gh'', ''--version''] False 30 start_state)
     = Inl (TimeoutExpired [''gh'', ''--version''] 30)"
  using run_command_failure_kinds [of "fails_on [''gh'', ''--version''] 2" "[''gh'', ''--version'']" 30
          start_state 2 "fs start_state"]
        run_command_failure_kinds [of never_returns "[''gh'', ''--version'']" 30
          start_state 0 "fs start_state"]
  by (simp add: fails_on_def never_returns_def show_int_def)

text \<open>
  C3 as the claim states it fails: a process that exceeds its timeout makes the runner
  raise \<^verbatim>\<open>TimeoutExpired\<close>, which is not the single error kind of the script.
\<close>

theorem run_command_timeout_counterexample:
  "fst (run_command never_returns [''gh'', ''--version''] False 30 start_state)
     = Inl (TimeoutExpired [''gh'', ''--version''] 30)"
  by (simp add: run_command_def never_returns_def)

section \<open>The tool check\<close>

text \<open>
  C10. In a dry run the tool check returns \<^verbatim>\<open>True\<close> whatever the world does: the result does
  not mention the world, the trace gains the three logged command lines and no process,
  the file system is untouched. A missing tool cannot be noticed.
\<close>

theorem check_tools_dry_run:
  "check_tools W True timeout_sec s =
     (Inr True,
      emit [Log INFO (Str (command_line [''git'', ''--version''])),
            Log INFO (Str (command_line [''git'', ''filter-repo'', ''--version''])),
            Log INFO (Str (command_line [''gh'', ''--version'']))] s)"
  by (simp add: check_tools_def bnd_def)

text \<open>
  C5, as the code has it. The check returns \<^verbatim>\<open>True\<close> exactly when the three invocations of
  the runner return. A \<^verbatim>\<open>_ScriptError\<close> of any of them is caught: the check returns \<^verbatim>\<open>False\<close>
  and its last act is an error record whose text is \<^verbatim>\<open>Could not find tool:\<close> followed by the
  exception's message, which gives the exit status and not the tool.
\<close>

theorem check_tools_result:
  "(let r1 = run_command W [''git'', ''--version''] dry t s;
        r2 = run_command W [''git'', ''filter-repo'', ''--version''] dry t (snd r1);
        r3 = run_command W [''gh'', ''--version''] dry t (snd r2);
        r = check_tools W dry t s
    in (fst r = Inr True \<longleftrightarrow> fst r1 = Inr () \<and> fst r2 = Inr () \<and> fst r3 = Inr ())
     \<and> (\<forall>m. fst r1 = Inl (ScriptError m)
              \<or> fst r1 = Inr () \<and> fst r2 = Inl (ScriptError m)
              \<or> fst r1 = Inr () \<and> fst r2 = Inr () \<and> fst r3 = Inl (ScriptError m)
            \<longrightarrow> fst r = Inr False
              \<and> last (trace (snd r)) = Log ERROR (Str (''Could not find tool: '' @ m))
              \<and> (\<exists>rc. rc \<noteq> 0 \<and> m = ''command failed with exit status '' @ show_int rc)))"
proof -
  obtain a1 s1 where r1: "run_command W [''git'', ''--version''] dry t s = (a1, s1)"
    by (cases "run_command W [''git'', ''--version''] dry t s")
  obtain a2 s2 where r2: "run_command W [''git'', ''filter-repo'', ''--version''] dry t s1 = (a2, s2)"
    by (cases "run_command W [''git'', ''filter-repo'', ''--version''] dry t s1")
  obtain a3 s3 where r3: "run_command W [''gh'', ''--version''] dry t s2 = (a3, s3)"
    by (cases "run_command W [''gh'', ''--version''] dry t s2")
  have m1: "\<And>m. a1 = Inl (ScriptError m) \<Longrightarrow>
      \<exists>rc. rc \<noteq> 0 \<and> m = ''command failed with exit status '' @ show_int rc"
    using run_command_ScriptError [of W "[''git'', ''--version'']" dry t s] r1 by simp
  have m2: "\<And>m. a2 = Inl (ScriptError m) \<Longrightarrow>
      \<exists>rc. rc \<noteq> 0 \<and> m = ''command failed with exit status '' @ show_int rc"
    using run_command_ScriptError [of W "[''git'', ''filter-repo'', ''--version'']" dry t s1] r2
    by simp
  have m3: "\<And>m. a3 = Inl (ScriptError m) \<Longrightarrow>
      \<exists>rc. rc \<noteq> 0 \<and> m = ''command failed with exit status '' @ show_int rc"
    using run_command_ScriptError [of W "[''gh'', ''--version'']" dry t s2] r3 by simp
  show ?thesis
    using m1 m2 m3
    by (auto simp: Let_def r1 r2 r3 check_tools_def bnd_def logger_error_def return_def
             split: sum.splits exn.splits)
qed

theorem check_tools_result_witness:
  "fst (check_tools (fails_on [''gh'', ''--version''] 1) False 30 start_state) = Inr False
   \<and> last (trace (snd (check_tools (fails_on [''gh'', ''--version''] 1) False 30 start_state)))
       = Log ERROR (Str ''Could not find tool: command failed with exit status 1'')
   \<and> fst (check_tools (fails_on [] 0) False 30 start_state) = Inr True"
  using check_tools_result [of "fails_on [''gh'', ''--version''] 1" False 30 start_state]
        check_tools_result [of "fails_on [] 0" False 30 start_state]
  by (simp add: Let_def run_command_def fails_on_def show_int_def)

text \<open>
  C5 as the claim states it fails in one point: the error record does not name the tool.
  When only \<^verbatim>\<open>gh --version\<close> fails, and when only \<^verbatim>\<open>git --version\<close> fails, the one error record
  is the same text.
\<close>

theorem check_tools_error_record_counterexample:
  "filter (written ERROR)
     (trace (snd (check_tools (fails_on [''gh'', ''--version''] 1) False 30 start_state)))
     = [Log ERROR (Str ''Could not find tool: command failed with exit status 1'')]
   \<and> filter (written ERROR)
     (trace (snd (check_tools (fails_on [''git'', ''--version''] 1) False 30 start_state)))
     = [Log ERROR (Str ''Could not find tool: command failed with exit status 1'')]"
  by code_simp

section \<open>The working directory\<close>

lemma keeps_cwd_return [simp]: "keeps_cwd (return a)"
  by (simp add: keeps_cwd_def return_def)

lemma keeps_cwd_raise [simp]: "keeps_cwd (raise e)"
  by (simp add: keeps_cwd_def raise_def)

lemma keeps_cwd_logger_info [simp]: "keeps_cwd (logger_info m)"
  by (simp add: keeps_cwd_def logger_info_def)

lemma keeps_cwd_run_command [simp]: "keeps_cwd (run_command W c dry t)"
  by (simp add: keeps_cwd_def run_command_def Let_def split: prod.splits outcome.splits)

lemma keeps_cwd_rmtree [simp]: "keeps_cwd (rmtree p)"
  by (simp add: keeps_cwd_def rmtree_def Let_def split: option.splits node.splits)

lemma keeps_cwd_iterdir [simp]: "keeps_cwd (iterdir p)"
  by (simp add: keeps_cwd_def iterdir_def split: option.splits node.splits)

lemma keeps_cwd_bnd: "keeps_cwd m \<Longrightarrow> (\<And>a. keeps_cwd (f a)) \<Longrightarrow> keeps_cwd (bnd m f)"
  by (auto simp: keeps_cwd_def bnd_def split: prod.splits sum.splits) (metis snd_conv)+

lemma keeps_cwd_move_targets [simp]: "keeps_cwd (move_targets W roots dry t files skip)"
  by (induction files arbitrary: skip) (simp_all add: Let_def keeps_cwd_bnd)

lemma keeps_cwd_remove_roots [simp]: "keeps_cwd (remove_roots roots)"
  by (induction roots) (simp_all add: keeps_cwd_bnd)

lemma keeps_cwd_rename_back [simp]: "keeps_cwd (rename_back W dry t skip)"
  by (induction skip) (auto simp: keeps_cwd_bnd)

lemma keeps_cwd_rename_loop [simp]: "keeps_cwd (rename_loop W dry t names acc)"
proof (induction names arbitrary: acc)
  case Nil
  show ?case by simp
next
  case (Cons a names)
  obtain src dst where a: "a = (src, dst)" by (cases a)
  have 1: "keeps_cwd (bnd (logger_info (str_path src @ '' does not exist. skip.'')) (\<lambda>u.
             rename_loop W dry t names acc))"
    by (simp add: keeps_cwd_bnd Cons.IH)
  have 2: "keeps_cwd (bnd (run_command W [''git'', ''mv'', str_path src, str_path dst] dry t) (\<lambda>u.
             rename_loop W dry t names True))"
    by (simp add: keeps_cwd_bnd Cons.IH)
  show ?case using 1 2 by (simp add: a keeps_cwd_def)
qed

lemma chdir_cases:
  "chdir p s = (Inl FileNotFoundError, s) \<or> chdir p s = (Inl NotADirectoryError, s)
   \<or> (is_dir (fs s) (resolve (cwd s) p)
        \<and> chdir p s = (Inr (), emit [Chdir (resolve (cwd s) p)] (s\<lparr>cwd := resolve (cwd s) p\<rparr>)))"
  by (simp add: chdir_def Let_def is_dir_def split: option.splits node.splits)

lemma chdir_result:
  "chdir p s =
     (if is_dir (fs s) (resolve (cwd s) p)
      then (Inr (), emit [Chdir (resolve (cwd s) p)] (s\<lparr>cwd := resolve (cwd s) p\<rparr>))
      else (Inl (if lookup (resolve (cwd s) p) (fs s) = None then FileNotFoundError
                 else NotADirectoryError), s))"
  by (simp add: chdir_def Let_def is_dir_def split: option.splits node.splits)

lemma chdir_Abs_is_dir:
  "is_dir (fs s) q \<Longrightarrow> chdir (Abs q) s = (Inr (), emit [Chdir q] (s\<lparr>cwd := q\<rparr>))"
  by (simp add: chdir_def Let_def is_dir_def split: option.splits node.splits)

lemma chdir_fs [simp]: "fs (snd (chdir p s)) = fs s"
  using chdir_cases [of p s] by auto

lemma working_directory_restores:
  assumes "keeps_cwd body"
  shows "cwd_restored (resolve (cwd s) p) (working_directory p body) s"
proof (cases "is_dir (fs s) (resolve (cwd s) p)")
  case False
  then have "snd (working_directory p body s) = s"
    by (simp add: working_directory_def chdir_result)
  then show ?thesis by (simp add: cwd_restored_def)
next
  case True
  let ?D = "resolve (cwd s) p"
  define s1 where "s1 = emit [Chdir ?D] (s\<lparr>cwd := ?D\<rparr>)"
  have c1: "chdir p s = (Inr (), s1)" using True by (simp add: chdir_result s1_def)
  obtain r s2 where b: "body s1 = (r, s2)" by (cases "body s1")
  have "cwd (snd (body s1)) = cwd s1" using assms by (simp add: keeps_cwd_def)
  then have c2: "cwd s2 = ?D" using b by (simp add: s1_def)
  show ?thesis
  proof (cases "is_dir (fs s2) (cwd s)")
    case True
    then have "working_directory p body s = (r, emit [Chdir (cwd s)] (s2\<lparr>cwd := cwd s\<rparr>))"
      using c1 b chdir_Abs_is_dir [OF True] by (simp add: working_directory_def)
    then show ?thesis by (simp add: cwd_restored_def)
  next
    case False
    then have "working_directory p body s
        = (Inl (if lookup (cwd s) (fs s2) = None then FileNotFoundError else NotADirectoryError), s2)"
      using c1 b by (simp add: working_directory_def chdir_result)
    then show ?thesis using False c2 by (simp add: cwd_restored_def)
  qed
qed

lemma cwd_restored_bnd_run_command:
  assumes "\<And>s'. cwd s' = cwd s \<Longrightarrow> cwd_restored D m s'"
  shows "cwd_restored D (bnd (run_command W c dry t) (\<lambda>u. m)) s"
proof -
  obtain r s1 where r: "run_command W c dry t s = (r, s1)" by (cases "run_command W c dry t s")
  have c: "cwd s1 = cwd s" using keeps_cwd_run_command [of W c dry t] r
    by (simp add: keeps_cwd_def) (metis snd_conv)
  show ?thesis
  proof (cases r)
    case (Inl e)
    then show ?thesis using r c by (simp add: cwd_restored_def bnd_def)
  next
    case (Inr u)
    then show ?thesis using r c assms [OF c] by (simp add: cwd_restored_def bnd_def)
  qed
qed

lemma cwd_restored_ended:
  assumes "cwd_restored (resolve (cwd s) dir) m s"
  shows "(\<lambda>(dir, e, s').
            (is_dir (fs s') (cwd s) \<longrightarrow> cwd s' = cwd s)
          \<and> (cwd s' = cwd s
             \<or> cwd s' = resolve (cwd s) dir
               \<and> (e = Some FileNotFoundError \<or> e = Some NotADirectoryError)))
         (dir, ended (m s))"
  using assms by (auto simp: cwd_restored_def ended_def)

text \<open>
  C9, as the code has it. Every step that changes the working directory changes it back
  before it returns to its caller, when the first \<^verbatim>\<open>chdir\<close> fails (nothing was changed), when
  the body returns and when the body raises, provided the directory it started in still
  exists when it ends: then the working directory is again that directory. If that
  directory is gone, the \<^verbatim>\<open>os.chdir(prev_cwd)\<close> of the \<^verbatim>\<open>finally\<close> clause raises: the step ends
  with \<^verbatim>\<open>FileNotFoundError\<close> or \<^verbatim>\<open>NotADirectoryError\<close> and the working directory stays the
  directory the step had entered. No step ends anywhere else.
\<close>

theorem steps_restore_working_directory:
  "list_all
     (\<lambda>(dir, e, s').
        (is_dir (fs s') (cwd s) \<longrightarrow> cwd s' = cwd s)
      \<and> (cwd s' = cwd s
         \<or> cwd s' = resolve (cwd s) dir
           \<and> (e = Some FileNotFoundError \<or> e = Some NotADirectoryError)))
     [(clone_dir, ended (filter_history W src target clone_dir dry t s)),
      (clone_dir, ended (change_root_directory W order clone_dir target dry t s)),
      (git_directory, ended (git_commit W git_directory user_name user_email message dry t s)),
      (git_directory, ended (git_rename W git_directory names dry t s)),
      (git_directory,
       ended (create_gh_repo_and_set_upstream W git_directory repository_name remote_name
                public dry t s)),
      (git_directory, ended (git_push W git_directory remote_name branch_name dry t s))]"
proof -
  have a: "resolve (cwd s') (absolute (cwd s) p) = resolve (cwd s) p" for s' :: state and p
    by (simp add: absolute_def)
  have 1: "cwd_restored (resolve (cwd s) clone_dir) (filter_history W src target clone_dir dry t) s"
  proof -
    let ?m = "working_directory (absolute (cwd s) clone_dir)
            (run_command W [''git'', ''filter-repo'', ''--path'',
               replace_char (CHR 0x5C) ''/'' (str_path target)] dry t)"
    let ?c = "[''gh'', ''repo'', ''clone'', src, str_path (absolute (cwd s) clone_dir)]"
    have "cwd_restored (resolve (cwd s) clone_dir) ?m s'" if "cwd s' = cwd s" for s' :: state
      using working_directory_restores [OF keeps_cwd_run_command, of s' "absolute (cwd s) clone_dir"]
        that
      by (simp add: a)
    then have "cwd_restored (resolve (cwd s) clone_dir) (bnd (run_command W ?c dry t) (\<lambda>u. ?m)) s"
      by (rule cwd_restored_bnd_run_command)
    moreover have "filter_history W src target clone_dir dry t s
                     = bnd (run_command W ?c dry t) (\<lambda>u. ?m) s"
      by (simp add: filter_history_def)
    ultimately show ?thesis by (simp add: cwd_restored_def)
  qed
  have 2: "cwd_restored (resolve (cwd s) clone_dir)
             (change_root_directory W order clone_dir target dry t) s"
  proof -
    have k: "keeps_cwd (bnd (iterdir (Rel [])) (\<lambda>root_entries.
        bnd (iterdir target) (\<lambda>target_files.
        bnd (move_targets W (root_folders_of root_entries) dry t target_files [])
          (\<lambda>skip_folders.
        bnd (remove_roots (order (root_folders_of root_entries))) (\<lambda>u.
        rename_back W dry t skip_folders)))))"
      by (intro keeps_cwd_bnd) simp_all
    show ?thesis
      using working_directory_restores [OF k, of s "absolute (cwd s) clone_dir"]
      by (simp add: cwd_restored_def change_root_directory_def a)
  qed
  have 3: "cwd_restored (resolve (cwd s) git_directory)
             (git_commit W git_directory user_name user_email message dry t) s"
  proof -
    have k: "keeps_cwd (bnd (case user_name of
               None \<Rightarrow> return ()
             | Some n \<Rightarrow>
                 run_command W [''git'', ''config'', ''--local'', ''user.name'', n] dry t)
          (\<lambda>u.
        bnd (case user_email of
               None \<Rightarrow> return ()
             | Some e \<Rightarrow>
                 run_command W [''git'', ''config'', ''--local'', ''user.email'', e] dry t)
          (\<lambda>u.
        bnd (run_command W [''git'', ''add'', ''.''] dry t) (\<lambda>u.
        run_command W [''git'', ''commit'', ''-m'', message] dry t))))"
      by (intro keeps_cwd_bnd) (simp_all split: option.splits)
    show ?thesis
      using working_directory_restores [OF k, of s "absolute (cwd s) git_directory"]
      by (simp add: cwd_restored_def git_commit_def a)
  qed
  have 4: "cwd_restored (resolve (cwd s) git_directory) (git_rename W git_directory names dry t) s"
    by (simp add: git_rename_def working_directory_restores)
  have 5: "cwd_restored (resolve (cwd s) git_directory)
             (create_gh_repo_and_set_upstream W git_directory repository_name remote_name
                public dry t) s"
  proof -
    have "cwd_restored (resolve (cwd s) git_directory)
            (working_directory git_directory
               (run_command W [''git'', ''remote'', ''add'', remote_name,
                  ''https://github.com/'' @ repository_name @ ''.git''] dry t)) s'"
      if "cwd s' = cwd s" for s' :: state
      using working_directory_restores [OF keeps_cwd_run_command, of s' git_directory] that
      by simp
    then show ?thesis
      unfolding create_gh_repo_and_set_upstream_def
      by (rule cwd_restored_bnd_run_command)
  qed
  have 6: "cwd_restored (resolve (cwd s) git_directory)
             (git_push W git_directory remote_name branch_name dry t) s"
    by (simp add: git_push_def working_directory_restores)
  show ?thesis
    unfolding list.pred_inject
    by (intro conjI cwd_restored_ended 1 2 3 4 5 6) simp
qed

theorem steps_restore_working_directory_witness:
  "fst (git_push (fails_on [''git'', ''push'', ''upstream'', ''master''] 1) clone_dir_example
          ''upstream'' ''master'' False 30 cloned_state)
     = Inl (ScriptError ''command failed with exit status 1'')
   \<and> cwd (snd (git_push (fails_on [''git'', ''push'', ''upstream'', ''master''] 1) clone_dir_example
          ''upstream'' ''master'' False 30 cloned_state)) = [''work'']
   \<and> fst (change_root_directory (tools (\<lambda>r. None)) (listed_first [''b'', ''.git''])
          clone_dir_example (Rel [''b'']) False 30 cloned_state) = Inr ()
   \<and> cwd (snd (change_root_directory (tools (\<lambda>r. None)) (listed_first [''b'', ''.git''])
          clone_dir_example (Rel [''b'']) False 30 cloned_state)) = [''work'']"
proof -
  let ?W = "fails_on [''git'', ''push'', ''upstream'', ''master''] 1"
  let ?p = "git_push ?W clone_dir_example ''upstream'' ''master'' False 30 cloned_state"
  let ?c = "change_root_directory (tools (\<lambda>r. None)) (listed_first [''b'', ''.git''])
              clone_dir_example (Rel [''b'']) False 30 cloned_state"
  have e1: "fst ?p = Inl (ScriptError ''command failed with exit status 1'')"
    by code_simp
  have d1: "is_dir (fs (snd ?p)) (cwd cloned_state)"
    by code_simp
  have e2: "fst ?c = Inr ()"
    by code_simp
  have d2: "is_dir (fs (snd ?c)) (cwd cloned_state)"
    by code_simp
  have c: "cwd cloned_state = [''work'']"
    by (simp add: cloned_state_def in_clone_def)
  note T = steps_restore_working_directory [where s = cloned_state and dry = False and t = 30
      and clone_dir = clone_dir_example and git_directory = clone_dir_example, unfolded list.pred_inject]
  have "cwd (snd ?p) = cwd cloned_state"
    using T [where W = ?W and remote_name = "''upstream''" and branch_name = "''master''"] d1
    by (simp add: ended_def)
  moreover have "cwd (snd ?c) = cwd cloned_state"
    using T [where W = "tools (\<lambda>r. None)" and order = "listed_first [''b'', ''.git'']"
               and target = "Rel [''b'']"] d2
    by (simp add: ended_def)
  ultimately show ?thesis using e1 e2 c by simp
qed

text \<open>
  C9 as the claim states it fails when the directory the step started in is removed while
  the step runs. Here the \<^verbatim>\<open>git push\<close> process exits with status 0 and leaves an empty file
  system: the step raises \<^verbatim>\<open>FileNotFoundError\<close> and the working directory, \<^verbatim>\<open>/work\<close> before
  the step, is \<^verbatim>\<open>/work/data/raw/mono\<close> after it.
\<close>

theorem git_push_not_restored_counterexample:
  "cwd cloned_state = [''work'']
   \<and> fst (git_push wipes clone_dir_example ''upstream'' ''master'' False 30 cloned_state)
       = Inl FileNotFoundError
   \<and> cwd (snd (git_push wipes clone_dir_example ''upstream'' ''master'' False 30 cloned_state))
       = [''work'', ''data'', ''raw'', ''mono'']"
  by code_simp

section \<open>What a step adds to the trace\<close>

lemma onlyD: "only Q m \<Longrightarrow> m s = (r, s') \<Longrightarrow> \<exists>evs. trace s' = trace s @ evs \<and> list_all Q evs"
  by (metis only_def snd_conv)

lemma only_return [simp]: "only Q (return a)"
  by (simp add: only_def return_def)

lemma only_raise [simp]: "only Q (raise e)"
  by (simp add: only_def raise_def)

lemma only_logger_info [simp]: "harmless Q \<Longrightarrow> only Q (logger_info m)"
  by (simp add: only_def logger_info_def harmless_def)

lemma only_logger_error [simp]: "harmless Q \<Longrightarrow> only Q (logger_error m)"
  by (simp add: only_def logger_error_def harmless_def)

lemma only_iterdir [simp]: "only Q (iterdir p)"
  by (simp add: only_def iterdir_def split: option.splits node.splits)

lemma only_chdir [simp]: "harmless Q \<Longrightarrow> only Q (chdir p)"
  by (simp add: only_def chdir_def Let_def harmless_def split: option.splits node.splits)

lemma only_run_command: "harmless Q \<Longrightarrow> dry \<or> Q (Spawn c) \<Longrightarrow> only Q (run_command W c dry t)"
  by (auto simp: only_def run_command_def Let_def harmless_def split: prod.splits outcome.splits)

lemma only_bnd: "only Q m \<Longrightarrow> (\<And>a. only Q (f a)) \<Longrightarrow> only Q (bnd m f)"
proof -
  assume m: "only Q m" and f: "\<And>a. only Q (f a)"
  show "only Q (bnd m f)"
    unfolding only_def
  proof
    fix s
    obtain r s1 where ms: "m s = (r, s1)" by (cases "m s")
    obtain e1 where e1: "trace s1 = trace s @ e1" "list_all Q e1" using onlyD [OF m ms] by blast
    show "\<exists>evs. trace (snd (bnd m f s)) = trace s @ evs \<and> list_all Q evs"
    proof (cases r)
      case (Inl e)
      then show ?thesis using ms e1 by (simp add: bnd_def)
    next
      case (Inr a)
      obtain r2 s2 where fs: "f a s1 = (r2, s2)" by (cases "f a s1")
      obtain e2 where e2: "trace s2 = trace s1 @ e2" "list_all Q e2" using onlyD [OF f fs] by blast
      have "trace s2 = trace s @ (e1 @ e2) \<and> list_all Q (e1 @ e2)" using e1 e2 by simp
      then show ?thesis using Inr ms fs by (auto simp: bnd_def)
    qed
  qed
qed

lemma only_working_directory:
  assumes h: "harmless Q" and b: "only Q body"
  shows "only Q (working_directory p body)"
  unfolding only_def
proof
  fix s
  obtain r1 s1 where c1: "chdir p s = (r1, s1)" by (cases "chdir p s")
  obtain e1 where e1: "trace s1 = trace s @ e1" "list_all Q e1"
    using onlyD [OF only_chdir [OF h] c1] by blast
  show "\<exists>evs. trace (snd (working_directory p body s)) = trace s @ evs \<and> list_all Q evs"
  proof (cases r1)
    case (Inl e)
    then show ?thesis using c1 e1 by (simp add: working_directory_def)
  next
    case (Inr u)
    obtain r2 s2 where c2: "body s1 = (r2, s2)" by (cases "body s1")
    obtain e2 where e2: "trace s2 = trace s1 @ e2" "list_all Q e2"
      using onlyD [OF b c2] by blast
    obtain r3 s3 where c3: "chdir (Abs (cwd s)) s2 = (r3, s3)" by (cases "chdir (Abs (cwd s)) s2")
    obtain e3 where e3: "trace s3 = trace s2 @ e3" "list_all Q e3"
      using onlyD [OF only_chdir [OF h] c3] by blast
    have "snd (working_directory p body s) = s3"
      using Inr c1 c2 c3 by (simp add: working_directory_def split: sum.splits)
    moreover have "trace s3 = trace s @ (e1 @ e2 @ e3) \<and> list_all Q (e1 @ e2 @ e3)"
      using e1 e2 e3 by simp
    ultimately show ?thesis by metis
  qed
qed

lemma harmless_before_flattening [simp]: "harmless before_flattening"
  by (simp add: harmless_def)

lemma only_check_tools: "only before_flattening (check_tools W dry t)"
proof -
  have b: "only before_flattening
     (bnd (run_command W [''git'', ''--version''] dry t) (\<lambda>u.
      bnd (run_command W [''git'', ''filter-repo'', ''--version''] dry t) (\<lambda>u.
      run_command W [''gh'', ''--version''] dry t)))" (is "only _ ?m")
    by (intro only_bnd only_run_command) simp_all
  show ?thesis
    unfolding only_def
  proof
    fix s
    obtain r s1 where m: "?m s = (r, s1)" by (cases "?m s")
    obtain e1 where e1: "trace s1 = trace s @ e1" "list_all before_flattening e1"
      using onlyD [OF b m] by blast
    have "trace (snd (check_tools W dry t s)) = trace s1
          \<or> (\<exists>x. trace (snd (check_tools W dry t s)) = trace s1 @ [Log ERROR (Str x)])"
      using m by (auto simp: check_tools_def logger_error_def bnd_def return_def
                       split: sum.splits exn.splits)
    then show "\<exists>evs. trace (snd (check_tools W dry t s)) = trace s @ evs
                  \<and> list_all before_flattening evs"
    proof
      assume "trace (snd (check_tools W dry t s)) = trace s1"
      then show ?thesis using e1 by auto
    next
      assume "\<exists>x. trace (snd (check_tools W dry t s)) = trace s1 @ [Log ERROR (Str x)]"
      then obtain x where "trace (snd (check_tools W dry t s)) = trace s @ (e1 @ [Log ERROR (Str x)])"
        using e1 by auto
      moreover have "list_all before_flattening (e1 @ [Log ERROR (Str x)])" using e1 by simp
      ultimately show ?thesis by blast
    qed
  qed
qed

lemma only_filter_history: "only before_flattening (filter_history W src target clone_dir dry t)"
proof -
  have "\<And>s0. only before_flattening
     (bnd (run_command W [''gh'', ''repo'', ''clone'', src, str_path (absolute (cwd s0) clone_dir)] dry t)
        (\<lambda>u. working_directory (absolute (cwd s0) clone_dir)
           (run_command W [''git'', ''filter-repo'', ''--path'',
              replace_char (CHR 0x5C) ''/'' (str_path target)] dry t)))"
    by (intro only_bnd only_run_command only_working_directory) simp_all
  then show ?thesis
    unfolding only_def filter_history_def by blast
qed

lemma killed_append [simp]: "killed (a @ b) = killed a @ killed b"
  by (induction a rule: killed.induct) simp_all

lemma quiet_silent: "spawned b = [] \<Longrightarrow> removed b = [] \<Longrightarrow> quiet_after_kill b"
  by (induction b rule: quiet_after_kill.induct) simp_all

lemma quiet_no_kill: "killed a = [] \<Longrightarrow> quiet_after_kill (a @ b) = quiet_after_kill b"
  by (induction a rule: killed.induct) simp_all

lemma quiet_extend:
  "quiet_after_kill a \<Longrightarrow> spawned b = [] \<Longrightarrow> removed b = [] \<Longrightarrow> quiet_after_kill (a @ b)"
  by (induction a rule: quiet_after_kill.induct) (simp_all add: quiet_silent)

lemma haltsD:
  "halts m \<Longrightarrow> m s = (r, s') \<Longrightarrow>
     \<exists>evs. trace s' = trace s @ evs \<and> quiet_after_kill evs \<and> (\<forall>a. r = Inr a \<longrightarrow> killed evs = [])"
  by (metis halts_def fst_conv snd_conv)

lemma silentD:
  "silent m \<Longrightarrow> m s = (r, s') \<Longrightarrow>
     \<exists>evs. trace s' = trace s @ evs \<and> spawned evs = [] \<and> removed evs = [] \<and> killed evs = []"
  by (metis silent_def snd_conv)

lemma silent_halts: "silent m \<Longrightarrow> halts m"
  unfolding silent_def halts_def by (metis quiet_silent)

lemma silent_return [simp]: "silent (return a)"
  by (simp add: silent_def return_def)

lemma silent_raise [simp]: "silent (raise e)"
  by (simp add: silent_def raise_def)

lemma silent_logger_info [simp]: "silent (logger_info m)"
  by (simp add: silent_def logger_info_def)

lemma silent_iterdir [simp]: "silent (iterdir p)"
  by (simp add: silent_def iterdir_def split: option.splits node.splits)

lemma silent_chdir [simp]: "silent (chdir p)"
  by (simp add: silent_def chdir_result)

lemma halts_return [simp]: "halts (return a)"
  by (simp add: silent_halts)

lemma halts_raise [simp]: "halts (raise e)"
  by (simp add: silent_halts)

lemma halts_logger_info [simp]: "halts (logger_info m)"
  by (simp add: silent_halts)

lemma halts_iterdir [simp]: "halts (iterdir p)"
  by (simp add: silent_halts)

lemma halts_rmtree [simp]: "halts (rmtree p)"
  by (simp add: halts_def rmtree_def Let_def split: option.splits node.splits)

lemma halts_run_command [simp]: "halts (run_command W c dry t)"
  by (auto simp: halts_def run_command_def Let_def split: prod.splits outcome.splits)

lemma halts_bnd: "halts m \<Longrightarrow> (\<And>a. halts (f a)) \<Longrightarrow> halts (bnd m f)"
proof -
  assume m: "halts m" and f: "\<And>a. halts (f a)"
  show "halts (bnd m f)"
    unfolding halts_def
  proof
    fix s
    obtain r s1 where ms: "m s = (r, s1)" by (cases "m s")
    obtain e1 where e1: "trace s1 = trace s @ e1" "quiet_after_kill e1"
        "\<forall>a. r = Inr a \<longrightarrow> killed e1 = []"
      using haltsD [OF m ms] by blast
    show "\<exists>evs. trace (snd (bnd m f s)) = trace s @ evs \<and> quiet_after_kill evs
            \<and> (\<forall>a. fst (bnd m f s) = Inr a \<longrightarrow> killed evs = [])"
    proof (cases r)
      case (Inl e)
      then show ?thesis using ms e1 by (simp add: bnd_def)
    next
      case (Inr a)
      then have k: "killed e1 = []" using e1(3) by simp
      obtain r2 s2 where fs: "f a s1 = (r2, s2)" by (cases "f a s1")
      obtain e2 where e2: "trace s2 = trace s1 @ e2" "quiet_after_kill e2"
          "\<forall>a. r2 = Inr a \<longrightarrow> killed e2 = []"
        using haltsD [OF f fs] by blast
      have "trace s2 = trace s @ (e1 @ e2)" using e1 e2 by simp
      moreover have "quiet_after_kill (e1 @ e2)" using k e2(2) by (simp add: quiet_no_kill)
      moreover have "\<forall>a. r2 = Inr a \<longrightarrow> killed (e1 @ e2) = []" using k e2(3) by simp
      ultimately show ?thesis using Inr ms fs by (auto simp: bnd_def)
    qed
  qed
qed

lemma halts_working_directory:
  assumes b: "halts body"
  shows "halts (working_directory p body)"
  unfolding halts_def
proof
  fix s
  obtain r1 s1 where c1: "chdir p s = (r1, s1)" by (cases "chdir p s")
  obtain e1 where e1: "trace s1 = trace s @ e1" "spawned e1 = []" "removed e1 = []" "killed e1 = []"
    using silentD [OF silent_chdir c1] by blast
  show "\<exists>evs. trace (snd (working_directory p body s)) = trace s @ evs \<and> quiet_after_kill evs
          \<and> (\<forall>a. fst (working_directory p body s) = Inr a \<longrightarrow> killed evs = [])"
  proof (cases r1)
    case (Inl e)
    then have "working_directory p body s = (Inl e, s1)"
      using c1 by (simp add: working_directory_def)
    then show ?thesis using e1 by (simp add: quiet_silent)
  next
    case (Inr u)
    obtain r2 s2 where c2: "body s1 = (r2, s2)" by (cases "body s1")
    obtain e2 where e2: "trace s2 = trace s1 @ e2" "quiet_after_kill e2"
        "\<forall>a. r2 = Inr a \<longrightarrow> killed e2 = []"
      using haltsD [OF b c2] by blast
    obtain r3 s3 where c3: "chdir (Abs (cwd s)) s2 = (r3, s3)" by (cases "chdir (Abs (cwd s)) s2")
    obtain e3 where e3: "trace s3 = trace s2 @ e3" "spawned e3 = []" "removed e3 = []" "killed e3 = []"
      using silentD [OF silent_chdir c3] by blast
    have w: "working_directory p body s = (case r3 of Inl e \<Rightarrow> Inl e | Inr v \<Rightarrow> r2, s3)"
      using Inr c1 c2 c3 by (simp add: working_directory_def split: sum.splits)
    have "trace s3 = trace s @ (e1 @ e2 @ e3)" using e1 e2 e3 by simp
    moreover have "quiet_after_kill (e1 @ e2 @ e3)"
      using e1(4) e2(2) e3 by (simp add: quiet_no_kill quiet_extend)
    moreover have "\<forall>a. fst (working_directory p body s) = Inr a \<longrightarrow> killed (e1 @ e2 @ e3) = []"
      using w e1(4) e2(3) e3(4) by (auto split: sum.splits)
    ultimately show ?thesis using w by auto
  qed
qed

lemma halts_move_targets [simp]: "halts (move_targets W roots dry t files skip)"
  by (induction files arbitrary: skip) (simp_all add: Let_def halts_bnd)

lemma halts_remove_roots [simp]: "halts (remove_roots roots)"
  by (induction roots) (simp_all add: halts_bnd)

lemma halts_rename_back [simp]: "halts (rename_back W dry t skip)"
  by (induction skip) (auto simp: halts_bnd)

lemma halts_rename_loop [simp]: "halts (rename_loop W dry t names acc)"
proof (induction names arbitrary: acc)
  case Nil
  show ?case by simp
next
  case (Cons a names)
  obtain src dst where a: "a = (src, dst)" by (cases a)
  have 1: "halts (bnd (logger_info (str_path src @ '' does not exist. skip.'')) (\<lambda>u.
             rename_loop W dry t names acc))"
    by (simp add: halts_bnd Cons.IH)
  have 2: "halts (bnd (run_command W [''git'', ''mv'', str_path src, str_path dst] dry t) (\<lambda>u.
             rename_loop W dry t names True))"
    by (simp add: halts_bnd Cons.IH)
  show ?case using 1 2 by (simp add: a halts_def)
qed

lemma halts_filter_history: "halts (filter_history W src target clone_dir dry t)"
proof -
  have "\<And>s0. halts
     (bnd (run_command W [''gh'', ''repo'', ''clone'', src, str_path (absolute (cwd s0) clone_dir)] dry t)
        (\<lambda>u. working_directory (absolute (cwd s0) clone_dir)
           (run_command W [''git'', ''filter-repo'', ''--path'',
              replace_char (CHR 0x5C) ''/'' (str_path target)] dry t)))"
    by (intro halts_bnd halts_working_directory) simp_all
  then show ?thesis
    unfolding halts_def filter_history_def by blast
qed

lemma halts_change_root_directory: "halts (change_root_directory W order clone_dir target dry t)"
proof -
  have "\<And>s0. halts
     (working_directory (absolute (cwd s0) clone_dir)
       (bnd (iterdir (Rel [])) (\<lambda>root_entries.
        bnd (iterdir target) (\<lambda>target_files.
        bnd (move_targets W (root_folders_of root_entries) dry t target_files [])
          (\<lambda>skip_folders.
        bnd (remove_roots (order (root_folders_of root_entries))) (\<lambda>u.
        rename_back W dry t skip_folders))))))"
    by (intro halts_bnd halts_working_directory) simp_all
  then show ?thesis
    unfolding halts_def change_root_directory_def by blast
qed

lemma halts_git_commit: "halts (git_commit W git_directory user_name user_email message dry t)"
proof -
  have "\<And>s0. halts
     (working_directory (absolute (cwd s0) git_directory)
       (bnd (case user_name of
               None \<Rightarrow> return ()
             | Some n \<Rightarrow>
                 run_command W [''git'', ''config'', ''--local'', ''user.name'', n] dry t)
          (\<lambda>u.
        bnd (case user_email of
               None \<Rightarrow> return ()
             | Some e \<Rightarrow>
                 run_command W [''git'', ''config'', ''--local'', ''user.email'', e] dry t)
          (\<lambda>u.
        bnd (run_command W [''git'', ''add'', ''.''] dry t) (\<lambda>u.
        run_command W [''git'', ''commit'', ''-m'', message] dry t)))))"
    by (intro halts_bnd halts_working_directory) (simp_all split: option.splits)
  then show ?thesis
    unfolding halts_def git_commit_def by blast
qed

lemma halts_git_rename: "halts (git_rename W git_directory names dry t)"
  unfolding git_rename_def by (intro halts_working_directory) simp

lemma halts_create_gh_repo_and_set_upstream:
  "halts (create_gh_repo_and_set_upstream W git_repository repository_name remote_name public dry t)"
  unfolding create_gh_repo_and_set_upstream_def
  by (intro halts_bnd halts_working_directory) simp_all

lemma halts_git_push: "halts (git_push W git_directory remote_name branch_name dry t)"
  unfolding git_push_def by (intro halts_working_directory) simp

lemma halts_gh_repo_archive: "halts (gh_repo_archive W repository_name dry t)"
  unfolding gh_repo_archive_def by simp

lemma check_tools_quiet:
  assumes "check_tools W dry t s = (r, s')"
  shows "\<exists>evs. trace s' = trace s @ evs \<and> quiet_after_kill evs
           \<and> (r = Inr True \<longrightarrow> killed evs = [])"
proof -
  let ?m = "bnd (run_command W [''git'', ''--version''] dry t) (\<lambda>u.
      bnd (run_command W [''git'', ''filter-repo'', ''--version''] dry t) (\<lambda>u.
      run_command W [''gh'', ''--version''] dry t))"
  have h: "halts ?m" by (intro halts_bnd) simp_all
  obtain r1 s1 where m: "?m s = (r1, s1)" by (cases "?m s")
  obtain e1 where e1: "trace s1 = trace s @ e1" "quiet_after_kill e1"
      "\<forall>a. r1 = Inr a \<longrightarrow> killed e1 = []"
    using haltsD [OF h m] by blast
  have "(s' = s1 \<and> (r = Inr True \<longrightarrow> (\<exists>a. r1 = Inr a)))
        \<or> (\<exists>x. s' = emit [Log ERROR (Str x)] s1 \<and> r = Inr False)"
    using m assms
    by (auto simp: check_tools_def logger_error_def bnd_def return_def
             split: sum.splits exn.splits)
  then show ?thesis
  proof
    assume "s' = s1 \<and> (r = Inr True \<longrightarrow> (\<exists>a. r1 = Inr a))"
    then show ?thesis using e1 by auto
  next
    assume "\<exists>x. s' = emit [Log ERROR (Str x)] s1 \<and> r = Inr False"
    then obtain x where x: "s' = emit [Log ERROR (Str x)] s1" "r = Inr False" by blast
    have "trace s' = trace s @ (e1 @ [Log ERROR (Str x)])" using x e1 by simp
    moreover have "quiet_after_kill (e1 @ [Log ERROR (Str x)])"
      using e1(2) by (simp add: quiet_extend)
    ultimately show ?thesis using x(2) by blast
  qed
qed

lemma pipeline_split:
  "pipeline W order config d =
     bnd (check_tools W (dry_run config) (default_timeout_sec config)) (\<lambda>is_tools.
       if \<not> is_tools then raise (ValueError ''could not find tools.'')
       else pipeline_tail W order config d)"
  unfolding pipeline_def pipeline_tail_def by (rule refl)

lemma halts_pipeline_tail: "halts (pipeline_tail W order config d)"
  unfolding pipeline_tail_def
  by (intro halts_bnd halts_filter_history halts_change_root_directory halts_git_commit
        halts_git_rename halts_create_gh_repo_and_set_upstream halts_git_push)
     (simp_all add: halts_git_commit halts_gh_repo_archive)

lemma pipeline_quiet:
  assumes "pipeline W order config d s = (r, s')"
  shows "quiet_after_kill (new_events s s') \<and> (r = Inr () \<longrightarrow> killed (new_events s s') = [])"
proof -
  let ?dry = "dry_run config" and ?t = "default_timeout_sec config"
  obtain r1 s1 where c: "check_tools W ?dry ?t s = (r1, s1)"
    by (cases "check_tools W ?dry ?t s")
  from check_tools_quiet [OF c] obtain e1 where
    e1: "trace s1 = trace s @ e1" "quiet_after_kill e1" "r1 = Inr True \<longrightarrow> killed e1 = []"
    by blast
  have P: "pipeline W order config d s
      = (case r1 of
           Inl e \<Rightarrow> (Inl e, s1)
         | Inr b \<Rightarrow> if b then pipeline_tail W order config d s1
                   else (Inl (ValueError ''could not find tools.''), s1))"
    unfolding pipeline_split by (simp add: bnd_def c raise_def split: sum.splits)
  show ?thesis
  proof (cases "r1 = Inr True")
    case False
    then have "\<exists>e. pipeline W order config d s = (Inl e, s1)"
      unfolding P by (cases r1) simp_all
    then have "s' = s1" "r \<noteq> Inr ()"
      using assms by auto
    then show ?thesis using e1 by simp
  next
    case True
    then have p: "pipeline_tail W order config d s1 = (r, s')"
      using assms unfolding P by simp
    from haltsD [OF halts_pipeline_tail p] obtain e2 where
      e2: "trace s' = trace s1 @ e2" "quiet_after_kill e2" "\<forall>a. r = Inr a \<longrightarrow> killed e2 = []"
      by blast
    have k: "killed e1 = []" using True e1(3) by simp
    have "trace s' = trace s @ (e1 @ e2)" using e1(1) e2(1) by simp
    then have "new_events s s' = e1 @ e2" by simp
    then show ?thesis using k e2 by (simp add: quiet_no_kill)
  qed
qed

lemma filter_command_nonzero_exit:
  assumes clone: "run_command W [''gh'', ''repo'', ''clone'', src, str_path (absolute (cwd s1) d)]
                    False t s1 = (Inr (), s2)"
    and enter: "chdir (absolute (cwd s1) d) s2 = (Inr (), s3)"
    and exit: "W fcmd t (emit [Log INFO (Str (command_line fcmd))] s3) = (Exited rc, n)" "rc \<noteq> 0"
    and fcmd: "fcmd = [''git'', ''filter-repo'', ''--path'',
                       replace_char (CHR 0x5C) ''/'' (str_path target)]"
  shows "\<exists>e s4. filter_history W src target d False t s1 = (Inl e, s4)
           \<and> (is_dir n (cwd s1) \<longrightarrow>
                e = ScriptError (''command failed with exit status '' @ show_int rc))
           \<and> spawned (new_events s1 s4)
               = [[''gh'', ''repo'', ''clone'', src, str_path (absolute (cwd s1) d)], fcmd]"
proof -
  let ?clone = "[''gh'', ''repo'', ''clone'', src, str_path (absolute (cwd s1) d)]"
  let ?D = "resolve (cwd s1) d"
  let ?err = "ScriptError (''command failed with exit status '' @ show_int rc)"
  from run_command_effect [OF clone] obtain e2 where
    e2: "trace s2 = trace s1 @ Log INFO (Str (command_line ?clone)) # e2" "cwd s2 = cwd s1"
      "spawned e2 = [?clone]"
    by auto
  have s3: "s3 = emit [Chdir ?D] (s2\<lparr>cwd := ?D\<rparr>)"
    using enter e2(2) chdir_cases [of "absolute (cwd s1) d" s2] by (auto simp: absolute_def)
  define s4 where "s4 = emit [Spawn fcmd, Kill fcmd]
      ((emit [Log INFO (Str (command_line fcmd))] s3)\<lparr>fs := n\<rparr>)"
  have body: "run_command W fcmd False t s3 = (Inl ?err, s4)"
    using exit by (simp add: run_command_def Let_def s4_def)
  have t4: "trace s4 = trace s1 @ (Log INFO (Str (command_line ?clone)) # e2
              @ [Chdir ?D, Log INFO (Str (command_line fcmd)), Spawn fcmd, Kill fcmd])"
    using e2(1) by (simp add: s4_def s3)
  have f4: "fs s4 = n" "cwd s4 = ?D" by (simp_all add: s4_def s3)
  have fh: "filter_history W src target d False t s1
              = working_directory (absolute (cwd s1) d) (run_command W fcmd False t) s2"
    using clone by (simp add: filter_history_def bnd_def fcmd)
  show ?thesis
  proof (cases "is_dir n (cwd s1)")
    case True
    let ?s5 = "emit [Chdir (cwd s1)] (s4\<lparr>cwd := cwd s1\<rparr>)"
    have "chdir (Abs (cwd s2)) s4 = (Inr (), ?s5)"
      using True f4 e2(2) by (simp add: chdir_result)
    then have "filter_history W src target d False t s1 = (Inl ?err, ?s5)"
      using fh enter body by (simp add: working_directory_def)
    moreover have "trace ?s5 = trace s1 @ (Log INFO (Str (command_line ?clone)) # e2
              @ [Chdir ?D, Log INFO (Str (command_line fcmd)), Spawn fcmd, Kill fcmd, Chdir (cwd s1)])"
      using t4 by simp
    then have "spawned (new_events s1 ?s5) = [?clone, fcmd]"
      using e2(3) by simp
    ultimately show ?thesis by blast
  next
    case False
    then have "\<exists>e. chdir (Abs (cwd s2)) s4 = (Inl e, s4)"
      using f4 e2(2) by (simp add: chdir_result)
    then obtain e where "filter_history W src target d False t s1 = (Inl e, s4)"
      using fh enter body by (auto simp: working_directory_def)
    moreover have "spawned (new_events s1 s4) = [?clone, fcmd]"
      using t4 e2(3) by simp
    ultimately show ?thesis using False by blast
  qed
qed

text \<open>
  C8. When the run reaches the \<^verbatim>\<open>git filter-repo\<close> command (the tool check returned \<^verbatim>\<open>True\<close>,
  the clone command returned, the clone's directory was entered) and that command exits
  with a status other than 0, the pipeline ends with an exception, which is the
  \<^verbatim>\<open>_ScriptError\<close> of that status unless the directory to return to is gone. Root flattening
  has not run: since the pipeline began no directory was removed and no \<^verbatim>\<open>git mv\<close> process
  created, and since the tool check the only processes are the clone and the filter
  command.

  More generally a failing step ends the pipeline: the result is that step's exception
  and the state is the one that step left, so no later step has run. This holds for a tool
  check that raises or returns \<^verbatim>\<open>False\<close>, for the history filter step, whose failure also leaves
  the trace without a removed directory and without a \<^verbatim>\<open>git mv\<close> process, and for every later
  step down to the archive command. And whatever step it is in: once a command has failed
  (the runner has killed its process), the pipeline creates no further process and removes
  no directory, and a pipeline that returns has had no failed command.
\<close>

theorem pipeline_stops_at_first_failure:
  "(let dry = dry_run config; t = default_timeout_sec config;
        commit = git_commit W d (git_user_name config) (git_user_email config);
        filter_command = [''git'', ''filter-repo'', ''--path'',
                          replace_char (CHR 0x5C) ''/'' (str_path (target_dir config))]
    in
    quiet_after_kill (new_events s (snd (pipeline W order config d s)))
  \<and> (fst (pipeline W order config d s) = Inr () \<longrightarrow>
        killed (new_events s (snd (pipeline W order config d s))) = [])
  \<and> (\<forall>e s1. check_tools W dry t s = (Inl e, s1) \<longrightarrow> pipeline W order config d s = (Inl e, s1))
  \<and> (\<forall>s1. check_tools W dry t s = (Inr False, s1) \<longrightarrow>
        pipeline W order config d s = (Inl (ValueError ''could not find tools.''), s1))
  \<and> (\<forall>s1. check_tools W dry t s = (Inr True, s1) \<longrightarrow>
     (\<forall>s2 s3 rc n.
          \<not> dry
        \<and> run_command W [''gh'', ''repo'', ''clone'', src_repository config,
                          str_path (absolute (cwd s1) d)] dry t s1 = (Inr (), s2)
        \<and> chdir (absolute (cwd s1) d) s2 = (Inr (), s3)
        \<and> W filter_command t (emit [Log INFO (Str (command_line filter_command))] s3)
            = (Exited rc, n)
        \<and> rc \<noteq> 0 \<longrightarrow>
        (\<exists>e s'. pipeline W order config d s = (Inl e, s')
           \<and> (is_dir n (cwd s1) \<longrightarrow>
                e = ScriptError (''command failed with exit status '' @ show_int rc))
           \<and> removed (new_events s s') = []
           \<and> list_all (\<lambda>c. take 2 c \<noteq> [''git'', ''mv'']) (spawned (new_events s s'))
           \<and> spawned (new_events s1 s')
               = [[''gh'', ''repo'', ''clone'', src_repository config,
                   str_path (absolute (cwd s1) d)], filter_command]))
   \<and> (\<forall>e s2. filter_history W (src_repository config) (target_dir config) d dry t s1 = (Inl e, s2) \<longrightarrow>
        pipeline W order config d s = (Inl e, s2)
        \<and> (\<exists>evs. trace s2 = trace s @ evs \<and> removed evs = []
                 \<and> list_all (\<lambda>c. take 2 c \<noteq> [''git'', ''mv'']) (spawned evs)))
   \<and> (\<forall>s2. filter_history W (src_repository config) (target_dir config) d dry t s1 = (Inr (), s2) \<longrightarrow>
     (\<forall>e s3. change_root_directory W order d (target_dir config) dry t s2 = (Inl e, s3) \<longrightarrow>
        pipeline W order config d s = (Inl e, s3))
   \<and> (\<forall>s3. change_root_directory W order d (target_dir config) dry t s2 = (Inr (), s3) \<longrightarrow>
     (\<forall>e s4. commit ''chore: change root directory.'' dry t s3 = (Inl e, s4) \<longrightarrow>
        pipeline W order config d s = (Inl e, s4))
   \<and> (\<forall>s4. commit ''chore: change root directory.'' dry t s3 = (Inr (), s4) \<longrightarrow>
     (\<forall>e s5. git_rename W d rename_files dry t s4 = (Inl e, s5) \<longrightarrow>
        pipeline W order config d s = (Inl e, s5))
   \<and> (\<forall>is_rename s5. git_rename W d rename_files dry t s4 = (Inr is_rename, s5) \<longrightarrow>
     (\<forall>e s6. (if is_rename then commit ''chore: change filenames.'' dry t else return ()) s5 = (Inl e, s6) \<longrightarrow>
        pipeline W order config d s = (Inl e, s6))
   \<and> (\<forall>s6. (if is_rename then commit ''chore: change filenames.'' dry t else return ()) s5 = (Inr (), s6) \<longrightarrow>
     (\<forall>e s7. create_gh_repo_and_set_upstream W d (dst_repository config) ''upstream''
                (is_public config) dry t s6 = (Inl e, s7) \<longrightarrow>
        pipeline W order config d s = (Inl e, s7))
   \<and> (\<forall>s7. create_gh_repo_and_set_upstream W d (dst_repository config) ''upstream''
                (is_public config) dry t s6 = (Inr (), s7) \<longrightarrow>
     (\<forall>e s8. git_push W d ''upstream'' ''master'' dry t s7 = (Inl e, s8) \<longrightarrow>
        pipeline W order config d s = (Inl e, s8))
   \<and> (\<forall>s8. git_push W d ''upstream'' ''master'' dry t s7 = (Inr (), s8) \<longrightarrow>
     (\<forall>e s9. is_archive config \<and> gh_repo_archive W (dst_repository config) dry t s8 = (Inl e, s9) \<longrightarrow>
        pipeline W order config d s = (Inl e, s9)))))))))))"
proof -
  have flat: "\<And>s1 e s2. check_tools W (dry_run config) (default_timeout_sec config) s = (Inr True, s1)
      \<Longrightarrow> filter_history W (src_repository config) (target_dir config) d (dry_run config)
            (default_timeout_sec config) s1 = (Inl e, s2)
      \<Longrightarrow> \<exists>evs. trace s2 = trace s @ evs \<and> removed evs = []
                 \<and> list_all (\<lambda>c. take 2 c \<noteq> [''git'', ''mv'']) (spawned evs)"
  proof -
    fix s1 e s2
    assume a: "check_tools W (dry_run config) (default_timeout_sec config) s = (Inr True, s1)"
      and b: "filter_history W (src_repository config) (target_dir config) d (dry_run config)
            (default_timeout_sec config) s1 = (Inl e, s2)"
    obtain e1 where e1: "trace s1 = trace s @ e1" "list_all before_flattening e1"
      using onlyD [OF only_check_tools a] by blast
    obtain e2 where e2: "trace s2 = trace s1 @ e2" "list_all before_flattening e2"
      using onlyD [OF only_filter_history b] by blast
    have g: "\<And>evs. list_all before_flattening evs \<Longrightarrow>
        removed evs = [] \<and> list_all (\<lambda>c. take 2 c \<noteq> [''git'', ''mv'']) (spawned evs)"
    proof -
      fix evs show "list_all before_flattening evs \<Longrightarrow>
        removed evs = [] \<and> list_all (\<lambda>c. take 2 c \<noteq> [''git'', ''mv'']) (spawned evs)"
        by (induction evs rule: spawned.induct) auto
    qed
    have "trace s2 = trace s @ (e1 @ e2)" "list_all before_flattening (e1 @ e2)"
      using e1 e2 by simp_all
    then show "\<exists>evs. trace s2 = trace s @ evs \<and> removed evs = []
                 \<and> list_all (\<lambda>c. take 2 c \<noteq> [''git'', ''mv'']) (spawned evs)"
      using g by blast
  qed
  have exit: "\<exists>e s'. pipeline W order config d s = (Inl e, s')
           \<and> (is_dir n (cwd s1) \<longrightarrow>
                e = ScriptError (''command failed with exit status '' @ show_int rc))
           \<and> removed (new_events s s') = []
           \<and> list_all (\<lambda>c. take 2 c \<noteq> [''git'', ''mv'']) (spawned (new_events s s'))
           \<and> spawned (new_events s1 s')
               = [[''gh'', ''repo'', ''clone'', src_repository config,
                   str_path (absolute (cwd s1) d)],
                  [''git'', ''filter-repo'', ''--path'',
                   replace_char (CHR 0x5C) ''/'' (str_path (target_dir config))]]"
    if a: "check_tools W (dry_run config) (default_timeout_sec config) s = (Inr True, s1)"
      and dry: "\<not> dry_run config"
      and clone: "run_command W [''gh'', ''repo'', ''clone'', src_repository config,
                          str_path (absolute (cwd s1) d)] (dry_run config)
                    (default_timeout_sec config) s1 = (Inr (), s2)"
      and enter: "chdir (absolute (cwd s1) d) s2 = (Inr (), s3)"
      and w: "W [''git'', ''filter-repo'', ''--path'',
                 replace_char (CHR 0x5C) ''/'' (str_path (target_dir config))]
                (default_timeout_sec config)
                (emit [Log INFO (Str (command_line [''git'', ''filter-repo'', ''--path'',
                   replace_char (CHR 0x5C) ''/'' (str_path (target_dir config))]))] s3)
              = (Exited rc, n)"
      and rc: "rc \<noteq> 0"
    for s1 s2 s3 rc n
  proof -
    have clone': "run_command W [''gh'', ''repo'', ''clone'', src_repository config,
                          str_path (absolute (cwd s1) d)] False
                    (default_timeout_sec config) s1 = (Inr (), s2)"
      using clone dry by simp
    from filter_command_nonzero_exit [OF clone' enter w rc refl]
    obtain e s4 where
      f: "filter_history W (src_repository config) (target_dir config) d False
            (default_timeout_sec config) s1 = (Inl e, s4)"
        "is_dir n (cwd s1) \<longrightarrow>
           e = ScriptError (''command failed with exit status '' @ show_int rc)"
        "spawned (new_events s1 s4)
           = [[''gh'', ''repo'', ''clone'', src_repository config,
               str_path (absolute (cwd s1) d)],
              [''git'', ''filter-repo'', ''--path'',
               replace_char (CHR 0x5C) ''/'' (str_path (target_dir config))]]"
      by blast
    have f': "filter_history W (src_repository config) (target_dir config) d (dry_run config)
            (default_timeout_sec config) s1 = (Inl e, s4)"
      using f(1) dry by simp
    have p: "pipeline W order config d s = (Inl e, s4)"
      using a f' by (simp add: pipeline_def bnd_def)
    from flat [OF a f'] obtain evs where
      "trace s4 = trace s @ evs" "removed evs = []"
      "list_all (\<lambda>c. take 2 c \<noteq> [''git'', ''mv'']) (spawned evs)"
      by blast
    then have "removed (new_events s s4) = []"
      "list_all (\<lambda>c. take 2 c \<noteq> [''git'', ''mv'']) (spawned (new_events s s4))"
      by simp_all
    then show ?thesis using p f(2,3) by blast
  qed
  show ?thesis
    unfolding Let_def
    apply (intro conjI allI impI)
    subgoal using pipeline_quiet [OF surjective_pairing] by blast
    subgoal using pipeline_quiet [OF surjective_pairing] by blast
    subgoal by (simp add: pipeline_def bnd_def)
    subgoal by (simp add: pipeline_def bnd_def raise_def)
    subgoal by (elim conjE) (rule exit; assumption)
    subgoal by (simp add: pipeline_def bnd_def)
    subgoal by (erule (1) flat)
    apply (simp_all add: pipeline_def bnd_def raise_def)
    done
qed

theorem pipeline_stops_at_first_failure_witness:
  "fst (pipeline (fails_on [''git'', ''filter-repo'', ''--path'', ''b''] 2) remdups example_config
          clone_dir_example cloned_state)
     = Inl (ScriptError ''command failed with exit status 2'')
   \<and> removed (trace (snd (pipeline (fails_on [''git'', ''filter-repo'', ''--path'', ''b''] 2)
          remdups example_config clone_dir_example cloned_state))) = []"
proof -
  let ?W = "fails_on [''git'', ''filter-repo'', ''--path'', ''b''] 2"
  let ?f = "[''git'', ''filter-repo'', ''--path'', ''b'']"
  let ?c = "[''gh'', ''repo'', ''clone'', ''org/mono'', ''/work/data/raw/mono'']"
  define s1 where "s1 = snd (check_tools ?W False 30 cloned_state)"
  define s2 where "s2 = snd (run_command ?W ?c False 30 s1)"
  define s3 where "s3 = snd (chdir (Abs [''work'', ''data'', ''raw'', ''mono'']) s2)"
  have "fst (check_tools ?W False 30 cloned_state) = Inr True"
    by code_simp
  then have h1: "check_tools ?W (dry_run example_config) (default_timeout_sec example_config)
                   cloned_state = (Inr True, s1)"
    by (simp add: s1_def example_config_def prod_eq_iff)
  have c1: "cwd s1 = [''work'']" unfolding s1_def by code_simp
  have a: "absolute (cwd s1) clone_dir_example = Abs [''work'', ''data'', ''raw'', ''mono'']"
    by (simp add: c1 absolute_def clone_dir_example_def)
  have "fst (run_command ?W ?c False 30 (snd (check_tools ?W False 30 cloned_state))) = Inr ()"
    by code_simp
  then have "run_command ?W ?c False 30 s1 = (Inr (), s2)"
    by (simp add: s1_def s2_def prod_eq_iff)
  then have h2: "run_command ?W [''gh'', ''repo'', ''clone'', src_repository example_config,
                     str_path (absolute (cwd s1) clone_dir_example)]
                   (dry_run example_config) (default_timeout_sec example_config) s1 = (Inr (), s2)"
    by (simp add: a example_config_def)
  have "fst (chdir (Abs [''work'', ''data'', ''raw'', ''mono''])
          (snd (run_command ?W ?c False 30 (snd (check_tools ?W False 30 cloned_state))))) = Inr ()"
    by code_simp
  then have "chdir (Abs [''work'', ''data'', ''raw'', ''mono'']) s2 = (Inr (), s3)"
    by (simp add: s1_def s2_def s3_def prod_eq_iff)
  then have h3: "chdir (absolute (cwd s1) clone_dir_example) s2 = (Inr (), s3)"
    by (simp add: a)
  have f: "[''git'', ''filter-repo'', ''--path'',
            replace_char (CHR 0x5C) ''/'' (str_path (target_dir example_config))] = ?f"
    by (simp add: example_config_def replace_char_def)
  have h4: "?W ?f (default_timeout_sec example_config)
              (emit [Log INFO (Str (command_line ?f))] s3) = (Exited 2, fs s3)"
    by (simp add: fails_on_def)
  have d: "is_dir (fs s3) (cwd s1)"
    unfolding s3_def s2_def s1_def by code_simp
  note T = pipeline_stops_at_first_failure [where W = ?W and config = example_config
      and s = cloned_state and d = clone_dir_example and order = remdups, unfolded Let_def f]
  have "\<not> dry_run example_config" by (simp add: example_config_def)
  with T [THEN conjunct2, THEN conjunct2, THEN conjunct2, THEN conjunct2, rule_format, OF h1,
          THEN conjunct1, rule_format, of s2 s3 2 "fs s3"] h2 h3 h4 d
  obtain e s' where
    u: "pipeline ?W remdups example_config clone_dir_example cloned_state = (Inl e, s')"
      "e = ScriptError (''command failed with exit status '' @ show_int 2)"
      "removed (new_events cloned_state s') = []"
    by auto
  have "trace cloned_state = []" by (simp add: cloned_state_def in_clone_def)
  then have "removed (trace s') = []" using u(3) by (simp add: new_events_def)
  then show ?thesis using u(1,2) by (simp add: show_int_def)
qed

section \<open>The rename step\<close>

lemma last_command_line: "last (command_line c) = CHR 0x60"
  by (simp add: command_line_def)

lemma skip_is_no_command_line [simp]:
  "x @ '' does not exist. skip.'' \<noteq> command_line c"
  "command_line c \<noteq> x @ '' does not exist. skip.''"
proof -
  show "x @ '' does not exist. skip.'' \<noteq> command_line c"
  proof
    assume "x @ '' does not exist. skip.'' = command_line c"
    then have "last (x @ '' does not exist. skip.'') = last (command_line c)" by simp
    then show False by (simp add: last_command_line)
  qed
  then show "command_line c \<noteq> x @ '' does not exist. skip.''" by metis
qed

lemma rename_loop_effect:
  "rename_loop W dry t names acc s = (r, s') \<Longrightarrow>
     \<exists>evs. trace s' = trace s @ evs \<and> cwd s' = cwd s
       \<and> (\<forall>b. r = Inr b \<longrightarrow> (b \<longleftrightarrow> acc \<or> issued evs))
       \<and> (\<not> dry \<longrightarrow> (\<forall>b. r = Inr b \<longrightarrow> (b \<longleftrightarrow> acc \<or> spawned evs \<noteq> [])))
       \<and> (dry \<longrightarrow> spawned evs = [] \<and> fs s' = fs s)"
proof (induction names arbitrary: acc s)
  case Nil
  then show ?case by (auto simp: return_def issued_def)
next
  case (Cons a names)
  obtain src dst where a: "a = (src, dst)" by (cases a)
  show ?case
  proof (cases "exists_path src s")
    case False
    define s1 where "s1 = emit [Log INFO (Str (str_path src @ '' does not exist. skip.''))] s"
    have "rename_loop W dry t names acc s1 = (r, s')"
      using Cons.prems False by (simp add: a s1_def bnd_logger_info)
    from Cons.IH [OF this] obtain evs where
      evs: "trace s' = trace s1 @ evs" "cwd s' = cwd s1"
        "\<forall>b. r = Inr b \<longrightarrow> (b \<longleftrightarrow> acc \<or> issued evs)"
        "\<not> dry \<longrightarrow> (\<forall>b. r = Inr b \<longrightarrow> (b \<longleftrightarrow> acc \<or> spawned evs \<noteq> []))"
        "dry \<longrightarrow> spawned evs = [] \<and> fs s' = fs s1"
      by blast
    let ?e = "Log INFO (Str (str_path src @ '' does not exist. skip.'')) # evs"
    have i: "issued ?e = issued evs"
      by (auto simp: issued_def)
    have "trace s' = trace s @ ?e" "cwd s' = cwd s" using evs by (simp_all add: s1_def)
    moreover have "\<forall>b. r = Inr b \<longrightarrow> (b \<longleftrightarrow> acc \<or> issued ?e)" using evs i by simp
    moreover have "\<not> dry \<longrightarrow> (\<forall>b. r = Inr b \<longrightarrow> (b \<longleftrightarrow> acc \<or> spawned ?e \<noteq> []))"
      using evs by simp
    moreover have "dry \<longrightarrow> spawned ?e = [] \<and> fs s' = fs s" using evs by (simp add: s1_def)
    ultimately show ?thesis by blast
  next
    case True
    obtain r1 s1 where rc: "run_command W [''git'', ''mv'', str_path src, str_path dst] dry t s = (r1, s1)"
      by (cases "run_command W [''git'', ''mv'', str_path src, str_path dst] dry t s")
    from run_command_effect [OF rc] obtain e1 where
      e1: "trace s1 = trace s @ Log INFO (Str (command_line [''git'', ''mv'', str_path src, str_path dst])) # e1"
        "cwd s1 = cwd s"
        "dry \<longrightarrow> e1 = [] \<and> fs s1 = fs s \<and> r1 = Inr ()"
        "\<not> dry \<and> r1 = Inr () \<longrightarrow> spawned e1 = [[''git'', ''mv'', str_path src, str_path dst]]"
      by blast
    let ?l = "Log INFO (Str (command_line [''git'', ''mv'', str_path src, str_path dst]))"
    show ?thesis
    proof (cases r1)
      case (Inl e)
      then have "r = Inl e" "s' = s1" using Cons.prems True rc by (simp_all add: a bnd_def)
      then show ?thesis using e1 Inl by auto
    next
      case (Inr u)
      then have "rename_loop W dry t names True s1 = (r, s')"
        using Cons.prems True rc by (simp add: a bnd_def)
      from Cons.IH [OF this] obtain evs where
        evs: "trace s' = trace s1 @ evs" "cwd s' = cwd s1"
          "dry \<longrightarrow> spawned evs = [] \<and> fs s' = fs s1"
          "\<forall>b. r = Inr b \<longrightarrow> b"
        by blast
      let ?e = "?l # e1 @ evs"
      have "issued ?e" by (auto simp: issued_def)
      moreover have "\<not> dry \<longrightarrow> spawned ?e \<noteq> []" using e1 Inr by simp
      moreover have "trace s' = trace s @ ?e" "cwd s' = cwd s" using evs e1 by simp_all
      moreover have "dry \<longrightarrow> spawned ?e = [] \<and> fs s' = fs s" using evs e1 by simp
      ultimately show ?thesis using evs(4) by blast
    qed
  qed
qed

lemma exists_path_emit [simp]: "exists_path p (emit evs s) = exists_path p s"
  by (simp add: exists_path_def)

lemma rename_loop_raises:
  "rename_loop W dry t names acc s = (Inl e, s') \<Longrightarrow>
     \<exists>src dst s0. (src, dst) \<in> set names \<and> exists_path src s0 \<and> \<not> dry
       \<and> run_command W [''git'', ''mv'', str_path src, str_path dst] dry t s0 = (Inl e, s')"
proof (induction names arbitrary: acc s)
  case Nil
  then show ?case by (simp add: return_def)
next
  case (Cons a names)
  obtain src dst where a: "a = (src, dst)" by (cases a)
  show ?case
  proof (cases "exists_path src s")
    case False
    then have "rename_loop W dry t names acc
                 (emit [Log INFO (Str (str_path src @ '' does not exist. skip.''))] s) = (Inl e, s')"
      using Cons.prems by (simp add: a bnd_logger_info)
    from Cons.IH [OF this] show ?thesis by auto
  next
    case True
    obtain r1 s1 where rc: "run_command W [''git'', ''mv'', str_path src, str_path dst] dry t s = (r1, s1)"
      by (cases "run_command W [''git'', ''mv'', str_path src, str_path dst] dry t s")
    show ?thesis
    proof (cases r1)
      case (Inl e1)
      then have "e1 = e" "s1 = s'" using Cons.prems True rc by (simp_all add: a bnd_def)
      moreover have "\<not> dry" using rc Inl by (cases dry) simp_all
      ultimately show ?thesis using rc Inl True a by auto
    next
      case (Inr u)
      then have "rename_loop W dry t names True s1 = (Inl e, s')"
        using Cons.prems True rc by (simp add: a bnd_def)
      from Cons.IH [OF this] show ?thesis by auto
    qed
  qed
qed

lemma rename_loop_exact:
  assumes "dry \<or> list_all (\<lambda>(src, dst). \<not> exists_path src s) names"
  shows "rename_loop W dry t names acc s
           = (Inr (acc \<or> list_ex (\<lambda>(src, dst). exists_path src s) names),
              emit (map (\<lambda>(src, dst). Log INFO (Str
                      (if exists_path src s
                       then command_line [''git'', ''mv'', str_path src, str_path dst]
                       else str_path src @ '' does not exist. skip.''))) names) s)"
  using assms
proof (induction names arbitrary: acc s)
  case Nil
  then show ?case by (simp add: return_def emit_def)
next
  case (Cons a names)
  obtain src dst where a: "a = (src, dst)" by (cases a)
  show ?case
  proof (cases "exists_path src s")
    case False
    let ?s1 = "emit [Log INFO (Str (str_path src @ '' does not exist. skip.''))] s"
    have "dry \<or> list_all (\<lambda>(src, dst). \<not> exists_path src ?s1) names"
      using Cons.prems by (auto simp: a)
    from Cons.IH [OF this, of acc] show ?thesis
      using False by (simp add: a bnd_logger_info)
  next
    case True
    then have dry: dry using Cons.prems by (auto simp: a)
    let ?s1 = "emit [Log INFO (Str (command_line [''git'', ''mv'', str_path src, str_path dst]))] s"
    have "dry \<or> list_all (\<lambda>(src, dst). \<not> exists_path src ?s1) names"
      using dry by simp
    from Cons.IH [OF this, of True] show ?thesis
      using True dry by (simp add: a bnd_def)
  qed
qed

lemma rename_event_Cons: "rename_event names e \<Longrightarrow> rename_event (a # names) e"
  by (cases e) auto

lemma run_command_frame:
  assumes "run_command W c dry t s = (r, s')"
  shows "\<exists>evs. trace s' = trace s @ evs
           \<and> set evs \<subseteq> {Log INFO (Str (command_line c)), Spawn c, Kill c,
                         Log INFO (Str ''=== success command'')}
           \<and> (spawned evs = [] \<longrightarrow> fs s' = fs s)"
  using assms
  by (auto simp: run_command_def Let_def split: prod.splits outcome.splits if_splits)

lemma rename_loop_frame:
  "rename_loop W dry t names acc s = (r, s') \<Longrightarrow>
     \<exists>evs. trace s' = trace s @ evs \<and> list_all (rename_event names) evs
       \<and> (spawned evs = [] \<longrightarrow> fs s' = fs s)"
proof (induction names arbitrary: acc s)
  case Nil
  then show ?case by (simp add: return_def)
next
  case (Cons a names)
  obtain src dst where a: "a = (src, dst)" by (cases a)
  have up: "list_all (rename_event (a # names)) evs" if "list_all (rename_event names) evs" for evs
    using that by (simp add: list_all_iff rename_event_Cons)
  show ?case
  proof (cases "exists_path src s")
    case False
    let ?l = "Log INFO (Str (str_path src @ '' does not exist. skip.''))"
    have "rename_loop W dry t names acc (emit [?l] s) = (r, s')"
      using Cons.prems False by (simp add: a bnd_logger_info)
    from Cons.IH [OF this] obtain evs where
      evs: "trace s' = trace s @ (?l # evs)" "list_all (rename_event names) evs"
        "spawned evs = [] \<longrightarrow> fs s' = fs s"
      by auto
    have "rename_event (a # names) ?l" by (simp add: a skip_message_def)
    then have "list_all (rename_event (a # names)) (?l # evs)" using up [OF evs(2)] by simp
    moreover have "spawned (?l # evs) = [] \<longrightarrow> fs s' = fs s" using evs(3) by simp
    ultimately show ?thesis using evs(1) by blast
  next
    case True
    let ?c = "[''git'', ''mv'', str_path src, str_path dst]"
    obtain r1 s1 where rc: "run_command W ?c dry t s = (r1, s1)"
      by (cases "run_command W ?c dry t s")
    from run_command_frame [OF rc] obtain e1 where
      e1: "trace s1 = trace s @ e1"
        "set e1 \<subseteq> {Log INFO (Str (command_line ?c)), Spawn ?c, Kill ?c,
                     Log INFO (Str ''=== success command'')}"
        "spawned e1 = [] \<longrightarrow> fs s1 = fs s"
      by blast
    have "rename_event (a # names) e" if "e \<in> set e1" for e
      using that e1(2) by (auto simp: a rename_command_def)
    then have l1: "list_all (rename_event (a # names)) e1" by (simp add: list_all_iff)
    show ?thesis
    proof (cases r1)
      case (Inl e)
      then have "s' = s1" using Cons.prems True rc by (simp add: a bnd_def)
      then show ?thesis using e1 l1 by blast
    next
      case (Inr u)
      then have "rename_loop W dry t names True s1 = (r, s')"
        using Cons.prems True rc by (simp add: a bnd_def)
      from Cons.IH [OF this] obtain evs where
        evs: "trace s' = trace s1 @ evs" "list_all (rename_event names) evs"
          "spawned evs = [] \<longrightarrow> fs s' = fs s1"
        by auto
      have "trace s' = trace s @ (e1 @ evs)" using e1(1) evs(1) by simp
      moreover have "list_all (rename_event (a # names)) (e1 @ evs)"
        using l1 up [OF evs(2)] by simp
      moreover have "spawned (e1 @ evs) = [] \<longrightarrow> fs s' = fs s"
        using e1(3) evs(3) by simp
      ultimately show ?thesis by blast
    qed
  qed
qed

text \<open>
  C7, as the code has it. For every rename map: the step returns \<^verbatim>\<open>True\<close> exactly when it has
  issued at least one rename command. Outside a dry run that is exactly when it has run at
  least one \<^verbatim>\<open>git mv\<close> process; in a dry run the command is only logged, nothing is renamed
  and the step still returns \<^verbatim>\<open>True\<close>.

  An absent source path never makes the step raise. When the directory of the repository
  and the directory to return to exist and no source path of the map does, the step
  returns \<^verbatim>\<open>False\<close>, creates no process and leaves the file system as it was. In that case,
  and in every dry run, what the step does is known to the record: between entering and
  leaving the directory it logs, pair after pair in the order of the map, the skip
  message for an absent source and the command line for a present one, and it returns
  whether some source was present. In every run an exception of the step is the failure to
  enter the directory, the failure to return from it, or the exception that the command
  runner raised for the \<^verbatim>\<open>git mv\<close> of a pair whose source was present; the step adds nothing
  to the trace but changes of directory, skip records and what the runner records for the
  \<^verbatim>\<open>git mv\<close> of a pair of the map; the file system is as it was unless a process was
  created; and a step that returns has had no failed command (no process was killed).
\<close>

theorem git_rename_result:
  assumes "git_rename W d names dry t s = (r, s')"
  shows "(\<forall>b. r = Inr b \<longrightarrow> (b \<longleftrightarrow> issued (new_events s s')))
       \<and> (\<not> dry \<longrightarrow> (\<forall>b. r = Inr b \<longrightarrow> (b \<longleftrightarrow> spawned (new_events s s') \<noteq> [])))
       \<and> (dry \<longrightarrow> spawned (new_events s s') = [] \<and> fs s' = fs s)
       \<and> (is_dir (fs s) (cwd s) \<and> is_dir (fs s) (resolve (cwd s) d)
            \<and> list_all (\<lambda>(src, dst). lookup (resolve (resolve (cwd s) d) src) (fs s) = None) names
          \<longrightarrow> r = Inr False \<and> spawned (new_events s s') = [] \<and> fs s' = fs s)
       \<and> (is_dir (fs s) (cwd s) \<and> is_dir (fs s) (resolve (cwd s) d)
            \<and> (dry \<or> list_all (\<lambda>(src, dst). lookup (resolve (resolve (cwd s) d) src) (fs s) = None)
                        names)
          \<longrightarrow> r = Inr (list_ex (\<lambda>(src, dst). lookup (resolve (resolve (cwd s) d) src) (fs s) \<noteq> None)
                         names)
            \<and> new_events s s'
                = Chdir (resolve (cwd s) d)
                  # map (\<lambda>(src, dst). Log INFO (Str
                      (if lookup (resolve (resolve (cwd s) d) src) (fs s) \<noteq> None
                       then command_line [''git'', ''mv'', str_path src, str_path dst]
                       else str_path src @ '' does not exist. skip.''))) names
                  @ [Chdir (cwd s)])
       \<and> (\<forall>e. r = Inl e \<longrightarrow>
              \<not> is_dir (fs s) (resolve (cwd s) d)
            \<or> \<not> is_dir (fs s') (cwd s)
            \<or> (\<exists>src dst s0 s1. (src, dst) \<in> set names \<and> exists_path src s0 \<and> \<not> dry
                 \<and> run_command W [''git'', ''mv'', str_path src, str_path dst] dry t s0 = (Inl e, s1)
                 \<and> s' = emit [Chdir (cwd s)] (s1\<lparr>cwd := cwd s\<rparr>)))
       \<and> list_all (rename_event names) (new_events s s')
       \<and> (spawned (new_events s s') = [] \<longrightarrow> fs s' = fs s)
       \<and> (\<forall>b. r = Inr b \<longrightarrow> killed (new_events s s') = [])"
proof -
  let ?C = "resolve (cwd s) d"
  let ?s1 = "emit [Chdir ?C] (s\<lparr>cwd := ?C\<rparr>)"
  let ?rec = "\<lambda>(src, dst). Log INFO (Str
                      (if lookup (resolve ?C src) (fs s) \<noteq> None
                       then command_line [''git'', ''mv'', str_path src, str_path dst]
                       else str_path src @ '' does not exist. skip.''))"
  consider (fail) e where "chdir d s = (Inl e, s)" "\<not> is_dir (fs s) ?C"
    | (ok) "chdir d s = (Inr (), ?s1)" "is_dir (fs s) ?C"
    by (cases "is_dir (fs s) ?C") (simp_all add: chdir_result)
  then show ?thesis
  proof cases
    case fail
    then have "r = Inl e" "s' = s"
      using assms by (simp_all add: git_rename_def working_directory_def)
    then show ?thesis using fail by (simp add: new_events_def)
  next
    case ok
    obtain r2 s2 where b: "rename_loop W dry t names False ?s1 = (r2, s2)"
      by (cases "rename_loop W dry t names False ?s1")
    from rename_loop_effect [OF b] obtain evs where
      evs: "trace s2 = trace ?s1 @ evs" "cwd s2 = cwd ?s1"
        "\<forall>b. r2 = Inr b \<longrightarrow> (b \<longleftrightarrow> issued evs)"
        "\<not> dry \<longrightarrow> (\<forall>b. r2 = Inr b \<longrightarrow> (b \<longleftrightarrow> spawned evs \<noteq> []))"
        "dry \<longrightarrow> spawned evs = [] \<and> fs s2 = fs ?s1"
      by auto
    obtain r3 s3 where c3: "chdir (Abs (cwd s)) s2 = (r3, s3)" by (cases "chdir (Abs (cwd s)) s2")
    have s': "s' = s3" and r: "r = (case r3 of Inl e \<Rightarrow> Inl e | Inr v \<Rightarrow> r2)"
      using assms ok b c3 by (auto simp: git_rename_def working_directory_def split: sum.splits)
    have c3': "(\<exists>e. r3 = Inl e \<and> s3 = s2 \<and> \<not> is_dir (fs s2) (cwd s))
             \<or> (r3 = Inr () \<and> s3 = emit [Chdir (cwd s)] (s2\<lparr>cwd := cwd s\<rparr>))"
      using c3 by (auto simp: chdir_result split: if_splits)
    then obtain fin where fin: "trace s3 = trace s2 @ fin" "spawned fin = []" "\<not> issued fin"
        "fs s3 = fs s2"
      by (auto simp: issued_def)
    have tr: "trace s' = trace s @ (Chdir ?C # evs @ fin)" using evs fin s' by simp
    have ne: "new_events s s' = Chdir ?C # evs @ fin" using tr by simp
    have iss: "issued (Chdir ?C # evs @ fin) = issued evs"
      using fin by (auto simp: issued_def)
    have sp: "spawned (Chdir ?C # evs @ fin) = spawned evs" using fin by simp
    have 1: "\<forall>b. r = Inr b \<longrightarrow> (b \<longleftrightarrow> issued (new_events s s'))"
      using evs(3) r iss ne by (auto split: sum.splits)
    have 2: "\<not> dry \<longrightarrow> (\<forall>b. r = Inr b \<longrightarrow> (b \<longleftrightarrow> spawned (new_events s s') \<noteq> []))"
      using evs(4) r sp ne by (auto split: sum.splits)
    have 3: "dry \<longrightarrow> spawned (new_events s s') = [] \<and> fs s' = fs s"
      using evs(5) sp ne fin s' by simp
    have 5: "r = Inr (list_ex (\<lambda>(src, dst). lookup (resolve ?C src) (fs s) \<noteq> None) names)
           \<and> new_events s s' = Chdir ?C # map ?rec names @ [Chdir (cwd s)]
           \<and> fs s' = fs s \<and> spawned (new_events s s') = []"
      if h: "is_dir (fs s) (cwd s)"
        "dry \<or> list_all (\<lambda>(src, dst). lookup (resolve ?C src) (fs s) = None) names"
    proof -
      have "dry \<or> list_all (\<lambda>(src, dst). \<not> exists_path src ?s1) names"
        using h(2) by (simp add: exists_path_def)
      from rename_loop_exact [OF this, of W t False] b
      have r2: "r2 = Inr (list_ex (\<lambda>(src, dst). lookup (resolve ?C src) (fs s) \<noteq> None) names)"
        and s2: "s2 = emit (map ?rec names) ?s1"
        by (simp_all add: exists_path_def)
      have "is_dir (fs s2) (cwd s)" using h(1) s2 by simp
      then have c: "r3 = Inr ()" "s3 = emit [Chdir (cwd s)] (s2\<lparr>cwd := cwd s\<rparr>)"
        using chdir_Abs_is_dir [of s2 "cwd s"] c3 by simp_all
      have "trace s' = trace s @ (Chdir ?C # map ?rec names @ [Chdir (cwd s)])"
        using s' c s2 by simp
      then have n: "new_events s s' = Chdir ?C # map ?rec names @ [Chdir (cwd s)]"
        by simp
      have "spawned (map ?rec names) = []"
        by (induction names) auto
      then have "spawned (new_events s s') = []" using n by simp
      moreover have "fs s' = fs s" using s' c s2 by simp
      ultimately show ?thesis using r r2 c n by simp
    qed
    have 4: "is_dir (fs s) (cwd s) \<and> is_dir (fs s) ?C
            \<and> list_all (\<lambda>(src, dst). lookup (resolve ?C src) (fs s) = None) names
          \<longrightarrow> r = Inr False \<and> spawned (new_events s s') = [] \<and> fs s' = fs s"
    proof
      assume a: "is_dir (fs s) (cwd s) \<and> is_dir (fs s) ?C
            \<and> list_all (\<lambda>(src, dst). lookup (resolve ?C src) (fs s) = None) names"
      then have n: "list_ex (\<lambda>(src, dst). lookup (resolve ?C src) (fs s) \<noteq> None) names = False"
        by (auto simp: list_all_iff list_ex_iff)
      from a have h: "is_dir (fs s) (cwd s)"
        "dry \<or> list_all (\<lambda>(src, dst). lookup (resolve ?C src) (fs s) = None) names"
        by blast+
      from 5 [OF h] have x: "r = Inr (list_ex (\<lambda>(src, dst). lookup (resolve ?C src) (fs s) \<noteq> None) names)"
        and y: "spawned (new_events s s') = []" "fs s' = fs s"
        by blast+
      have "r = Inr False" unfolding x n by (rule refl)
      then show "r = Inr False \<and> spawned (new_events s s') = [] \<and> fs s' = fs s"
        using y by blast
    qed
    have 6: "\<forall>e. r = Inl e \<longrightarrow>
              \<not> is_dir (fs s) ?C
            \<or> \<not> is_dir (fs s') (cwd s)
            \<or> (\<exists>src dst s0 s1. (src, dst) \<in> set names \<and> exists_path src s0 \<and> \<not> dry
                 \<and> run_command W [''git'', ''mv'', str_path src, str_path dst] dry t s0 = (Inl e, s1)
                 \<and> s' = emit [Chdir (cwd s)] (s1\<lparr>cwd := cwd s\<rparr>))"
    proof (intro allI impI)
      fix e assume e: "r = Inl e"
      from c3' show "\<not> is_dir (fs s) ?C
            \<or> \<not> is_dir (fs s') (cwd s)
            \<or> (\<exists>src dst s0 s1. (src, dst) \<in> set names \<and> exists_path src s0 \<and> \<not> dry
                 \<and> run_command W [''git'', ''mv'', str_path src, str_path dst] dry t s0 = (Inl e, s1)
                 \<and> s' = emit [Chdir (cwd s)] (s1\<lparr>cwd := cwd s\<rparr>))"
      proof
        assume "\<exists>e. r3 = Inl e \<and> s3 = s2 \<and> \<not> is_dir (fs s2) (cwd s)"
        then show ?thesis using s' by auto
      next
        assume k: "r3 = Inr () \<and> s3 = emit [Chdir (cwd s)] (s2\<lparr>cwd := cwd s\<rparr>)"
        then have "rename_loop W dry t names False ?s1 = (Inl e, s2)"
          using b r e by simp
        from rename_loop_raises [OF this] show ?thesis using k s' by blast
      qed
    qed
    from rename_loop_frame [OF b] obtain fr where
      fr: "trace s2 = trace ?s1 @ fr" "list_all (rename_event names) fr"
        "spawned fr = [] \<longrightarrow> fs s2 = fs ?s1"
      by blast
    have "fr = evs" using fr(1) evs(1) by simp
    moreover have "list_all (rename_event names) fin" using c3' fin(1) by auto
    ultimately have 7: "list_all (rename_event names) (new_events s s')"
      using ne fr(2) by simp
    have 8: "spawned (new_events s s') = [] \<longrightarrow> fs s' = fs s"
      using ne sp fr(3) \<open>fr = evs\<close> fin(4) s' by simp
    have 9: "\<forall>b. r = Inr b \<longrightarrow> killed (new_events s s') = []"
      using haltsD [OF halts_git_rename assms] by auto
    show ?thesis using 1 2 3 4 5 6 7 8 9 by blast
  qed
qed

theorem git_rename_result_witness:
  "fst (git_rename never_returns clone_dir_example rename_files False 30 cloned_state) = Inr False
   \<and> spawned (new_events cloned_state
        (snd (git_rename never_returns clone_dir_example rename_files False 30 cloned_state))) = []
   \<and> fst (git_rename (tools (\<lambda>r. None)) clone_dir_example rename_files False 30 flattened_state)
       = Inr True
   \<and> spawned (new_events flattened_state
        (snd (git_rename (tools (\<lambda>r. None)) clone_dir_example rename_files False 30 flattened_state)))
       \<noteq> []
   \<and> fst (git_rename (tools (\<lambda>r. None)) clone_dir_example
        [(Rel [''index.md''], Rel [''README.md'']), (Rel [''nope.md''], Rel [''x.md''])]
        False 30 flattened_state) = Inr True
   \<and> fst (git_rename never_returns clone_dir_example
        [(Rel [''nope.md''], Rel [''x.md'']), (Rel [''index.md''], Rel [''README.md''])]
        True 30 flattened_state) = Inr True"
proof -
  let ?r = "git_rename never_returns clone_dir_example rename_files False 30 cloned_state"
  let ?q = "git_rename (tools (\<lambda>r. None)) clone_dir_example rename_files False 30 flattened_state"
  let ?names = "[(Rel [''nope.md''], Rel [''x.md'']), (Rel [''index.md''], Rel [''README.md''])]"
  let ?d = "git_rename never_returns clone_dir_example ?names True 30 flattened_state"
  have h: "is_dir (fs cloned_state) (cwd cloned_state)
         \<and> is_dir (fs cloned_state) (resolve (cwd cloned_state) clone_dir_example)
         \<and> list_all (\<lambda>(src, dst).
              lookup (resolve (resolve (cwd cloned_state) clone_dir_example) src) (fs cloned_state) = None)
             rename_files"
    by (simp add: cloned_state_def in_clone_def clone_dir_example_def rename_files_def is_dir_def)
  note R = git_rename_result [OF surjective_pairing, where W = never_returns
        and d = clone_dir_example and names = rename_files and dry = False and t = 30
        and s = cloned_state]
  have 1: "fst ?r = Inr False \<and> spawned (new_events cloned_state (snd ?r)) = []"
    using R [THEN conjunct2, THEN conjunct2, THEN conjunct2, THEN conjunct1] h
    by simp
  have e: "fst ?q = Inr True" by code_simp
  note Q = git_rename_result [OF surjective_pairing, where W = "tools (\<lambda>r. None)"
        and d = clone_dir_example and names = rename_files and dry = False and t = 30
        and s = flattened_state]
  have 2: "spawned (new_events flattened_state (snd ?q)) \<noteq> []"
    using Q [THEN conjunct2, THEN conjunct1] e
    by auto
  have 3: "fst (git_rename (tools (\<lambda>r. None)) clone_dir_example
        [(Rel [''index.md''], Rel [''README.md'']), (Rel [''nope.md''], Rel [''x.md''])]
        False 30 flattened_state) = Inr True"
    by code_simp
  have g: "is_dir (fs flattened_state) (cwd flattened_state)
         \<and> is_dir (fs flattened_state) (resolve (cwd flattened_state) clone_dir_example)"
    by (simp add: flattened_state_def in_clone_def clone_dir_example_def is_dir_def)
  note D = git_rename_result [OF surjective_pairing, where W = never_returns
        and d = clone_dir_example and names = ?names and dry = True and t = 30
        and s = flattened_state]
  have 4: "fst ?d = Inr True"
    using D [THEN conjunct2, THEN conjunct2, THEN conjunct2, THEN conjunct2, THEN conjunct1] g
    by (simp add: flattened_state_def in_clone_def clone_dir_example_def)
  show ?thesis using 1 2 3 4 e by simp
qed

text \<open>
  C7 as the claim states it fails in a dry run: with \<^verbatim>\<open>index.md\<close> in the clone the step
  returns \<^verbatim>\<open>True\<close> although no process was created and the file system is unchanged, so no
  rename was performed.
\<close>

theorem git_rename_dry_run_counterexample:
  "fst (git_rename never_returns clone_dir_example rename_files True 30 flattened_state) = Inr True
   \<and> spawned (trace (snd (git_rename never_returns clone_dir_example rename_files True 30
        flattened_state))) = []
   \<and> fs (snd (git_rename never_returns clone_dir_example rename_files True 30 flattened_state))
       = fs flattened_state"
  by code_simp

section \<open>The order of root flattening\<close>

lemma followsD:
  "follows C plan P m \<Longrightarrow> cwd s = C \<Longrightarrow> m s = (r, s') \<Longrightarrow>
     \<exists>evs. trace s' = trace s @ evs \<and> cwd s' = C
       \<and> (\<exists>rest. plan = filter significant evs @ rest)
       \<and> (\<forall>a. r = Inr a \<longrightarrow> filter significant evs = plan \<and> P a)"
  unfolding follows_def by (metis fst_conv snd_conv)

lemma take_command_line [simp]: "take 13 (command_line c) = ''=== command: ''"
  by (simp add: command_line_def)

lemma follows_return [simp]: "P a \<Longrightarrow> follows C [] P (return a)"
  by (simp add: follows_def return_def)

lemma follows_logger_info:
  "take 13 m \<noteq> ''=== command: '' \<Longrightarrow> follows C [] (\<lambda>u. True) (logger_info m)"
  by (simp add: follows_def logger_info_def)

lemma follows_run_command: "follows C (issue dry c) (\<lambda>u. True) (run_command W c dry t)"
  by (auto simp: follows_def run_command_def issue_def Let_def split: prod.splits outcome.splits)

lemma follows_rmtree: "follows C [Rmtree (C @ [n])] (\<lambda>u. True) (rmtree (Rel [n]))"
  by (auto simp: follows_def rmtree_def Let_def split: option.splits node.splits)

lemma follows_bnd:
  assumes m: "follows C A P m" and f: "\<And>a. P a \<Longrightarrow> follows C B Q (f a)"
  shows "follows C (A @ B) Q (bnd m f)"
  unfolding follows_def
proof (intro allI impI)
  fix s :: state
  assume c: "cwd s = C"
  obtain r s1 where ms: "m s = (r, s1)" by (cases "m s")
  from followsD [OF m c ms] obtain e1 rest1 where
    e1: "trace s1 = trace s @ e1" "cwd s1 = C" "A = filter significant e1 @ rest1"
      "\<forall>a. r = Inr a \<longrightarrow> filter significant e1 = A \<and> P a"
    by blast
  show "\<exists>evs. trace (snd (bnd m f s)) = trace s @ evs \<and> cwd (snd (bnd m f s)) = C
           \<and> (\<exists>rest. A @ B = filter significant evs @ rest)
           \<and> (\<forall>a. fst (bnd m f s) = Inr a \<longrightarrow> filter significant evs = A @ B \<and> Q a)"
  proof (cases r)
    case (Inl e)
    then have "bnd m f s = (Inl e, s1)" using ms by (simp add: bnd_def)
    moreover have "A @ B = filter significant e1 @ (rest1 @ B)" using e1 by simp
    ultimately show ?thesis using e1 by auto
  next
    case (Inr a)
    then have pa: "P a" "filter significant e1 = A" using e1 by simp_all
    obtain r2 s2 where fs: "f a s1 = (r2, s2)" by (cases "f a s1")
    from followsD [OF f [OF pa(1)] e1(2) fs] obtain e2 rest2 where
      e2: "trace s2 = trace s1 @ e2" "cwd s2 = C" "B = filter significant e2 @ rest2"
        "\<forall>a. r2 = Inr a \<longrightarrow> filter significant e2 = B \<and> Q a"
      by blast
    have b: "bnd m f s = (r2, s2)" using Inr ms fs by (simp add: bnd_def)
    have "trace s2 = trace s @ (e1 @ e2)" using e1 e2 by simp
    moreover have "A @ B = filter significant (e1 @ e2) @ rest2" using pa e2 by simp
    moreover have "\<forall>a. r2 = Inr a \<longrightarrow> filter significant (e1 @ e2) = A @ B \<and> Q a"
      using pa e2 by simp
    ultimately show ?thesis using b e2(2) by (metis fst_conv snd_conv)
  qed
qed

lemma follows_move_targets:
  "follows C
     (concat (map (\<lambda>f. issue dry [''git'', ''mv'', str_path f, new_name_of roots (path_name f)]) files))
     (\<lambda>sk. sk = skip @ map (\<lambda>n. (n @ ''_test'', n)) (filter (\<lambda>n. n \<in> set roots) (map path_name files)))
     (move_targets W roots dry t files skip)"
proof (induction files arbitrary: skip)
  case Nil
  show ?case by simp
next
  case (Cons f files)
  let ?new = "new_name_of roots (path_name f)"
  let ?skip = "if path_name f \<in> set roots then skip @ [(?new, path_name f)] else skip"
  have l: "follows C [] (\<lambda>u. True) (logger_info (''move: '' @ str_path f @ '' to '' @ ?new))"
    by (rule follows_logger_info) simp
  have r: "follows C (issue dry [''git'', ''mv'', str_path f, ?new]) (\<lambda>u. True)
             (run_command W [''git'', ''mv'', str_path f, ?new] dry t)"
    by (rule follows_run_command)
  have "follows C
     ([] @ issue dry [''git'', ''mv'', str_path f, ?new] @
       concat (map (\<lambda>f. issue dry [''git'', ''mv'', str_path f, new_name_of roots (path_name f)]) files))
     (\<lambda>sk. sk = ?skip @ map (\<lambda>n. (n @ ''_test'', n)) (filter (\<lambda>n. n \<in> set roots) (map path_name files)))
     (bnd (logger_info (''move: '' @ str_path f @ '' to '' @ ?new)) (\<lambda>u.
      bnd (run_command W [''git'', ''mv'', str_path f, ?new] dry t) (\<lambda>u.
      move_targets W roots dry t files ?skip)))"
    apply (rule follows_bnd [OF l])
    apply (rule follows_bnd [OF r])
    apply (rule Cons.IH)
    done
  then show ?case
    by (cases "path_name f \<in> set roots") (simp_all add: Let_def new_name_of_def)
qed

lemma follows_remove_roots:
  "follows C (map (\<lambda>r. Rmtree (C @ [r])) (filter (\<lambda>r. r \<noteq> ''.git'') roots)) (\<lambda>u. True)
     (remove_roots roots)"
proof (induction roots)
  case Nil
  show ?case by simp
next
  case (Cons r roots)
  show ?case
  proof (cases "r = ''.git''")
    case True
    then show ?thesis using Cons.IH by simp
  next
    case False
    have l: "follows C [] (\<lambda>u. True) (logger_info (''remove: '' @ r))"
      by (rule follows_logger_info) simp
    have "follows C ([] @ [Rmtree (C @ [r])]
            @ map (\<lambda>r. Rmtree (C @ [r])) (filter (\<lambda>r. r \<noteq> ''.git'') roots)) (\<lambda>u. True)
       (bnd (logger_info (''remove: '' @ r)) (\<lambda>u.
        bnd (rmtree (Rel [r])) (\<lambda>u. remove_roots roots)))"
      apply (rule follows_bnd [OF l])
      apply (rule follows_bnd [OF follows_rmtree])
      apply (rule Cons.IH)
      done
    then show ?thesis using False by simp
  qed
qed

lemma follows_rename_back:
  "follows C (concat (map (\<lambda>(a, b). issue dry [''git'', ''mv'', a, b]) skip)) (\<lambda>u. True)
     (rename_back W dry t skip)"
proof (induction skip)
  case Nil
  show ?case by simp
next
  case (Cons p skip)
  obtain a b where p: "p = (a, b)" by (cases p)
  have l: "follows C [] (\<lambda>u. True) (logger_info (''move: '' @ a @ '' to '' @ b))"
    by (rule follows_logger_info) simp
  have "follows C ([] @ issue dry [''git'', ''mv'', a, b]
            @ concat (map (\<lambda>(a, b). issue dry [''git'', ''mv'', a, b]) skip)) (\<lambda>u. True)
       (bnd (logger_info (''move: '' @ a @ '' to '' @ b)) (\<lambda>u.
        bnd (run_command W [''git'', ''mv'', a, b] dry t) (\<lambda>u. rename_back W dry t skip)))"
    apply (rule follows_bnd [OF l])
    apply (rule follows_bnd [OF follows_run_command])
    apply (rule Cons.IH)
    done
  then show ?case by (simp add: p)
qed

lemma path_name_child [simp]: "path_name (child p n) = n"
  by (cases p) (simp_all add: path_name_def)

lemma map_path_name_child: "map path_name (map (\<lambda>(k, v). child p k) es) = map fst es"
  by (induction es) auto

text \<open>
  C6. In every root flattening, dry run or not, whatever the external tools do and in
  whatever order the set of the root names iterates, the logged command lines, the
  processes and the removed directories come in the order of the plan: first the move of
  every target entry, then the removal of every entry the root had at the start except
  \<^verbatim>\<open>.git\<close> (which is never removed), in the order of the set, then the renames from the
  temporary \<^verbatim>\<open>_test\<close> names. A flattening that stops early has done a beginning of the plan,
  so no directory is removed before the last phase-1 move is issued and no phase-2 rename
  is issued before the last removal; one that returns has done all of it.
\<close>

theorem change_root_directory_order:
  assumes root: "lookup (resolve (cwd s) clone_dir) (fs s) = Some (Dir root)"
      and tgt: "lookup (resolve (resolve (cwd s) clone_dir) target) (fs s) = Some (Dir tgt)"
  shows "(\<exists>rest. flatten_plan dry (resolve (cwd s) clone_dir) target
                   (map fst root) (order (map fst root)) (map fst tgt)
            = filter significant
                (new_events s (snd (change_root_directory W order clone_dir target dry t s)))
              @ rest)
       \<and> (fst (change_root_directory W order clone_dir target dry t s) = Inr () \<longrightarrow>
            filter significant
              (new_events s (snd (change_root_directory W order clone_dir target dry t s)))
            = flatten_plan dry (resolve (cwd s) clone_dir) target
                (map fst root) (order (map fst root)) (map fst tgt))"
proof -
  let ?C = "resolve (cwd s) clone_dir"
  let ?roots = "map fst root"
  let ?files = "map (\<lambda>(k, v). child target k) tgt"
  let ?s1 = "emit [Chdir ?C] (s\<lparr>cwd := ?C\<rparr>)"
  let ?body = "bnd (move_targets W ?roots dry t ?files []) (\<lambda>skip_folders.
        bnd (remove_roots (order ?roots)) (\<lambda>u. rename_back W dry t skip_folders))"
  let ?plan = "flatten_plan dry ?C target ?roots (order ?roots) (map fst tgt)"
  have names: "map path_name ?files = map fst tgt"
    by (rule map_path_name_child)
  have p1: "concat (map (\<lambda>f. issue dry [''git'', ''mv'', str_path f, new_name_of ?roots (path_name f)]) ?files)
      = concat (map (\<lambda>n. issue dry [''git'', ''mv'', str_path (child target n),
                                  if n \<in> set ?roots then n @ ''_test'' else n]) (map fst tgt))"
    by (simp add: comp_def case_prod_unfold new_name_of_def cong: if_cong)
  have p3: "concat (map (\<lambda>(a, b). issue dry [''git'', ''mv'', a, b])
              (map (\<lambda>n. (n @ ''_test'', n)) (filter (\<lambda>n. n \<in> set ?roots) (map fst tgt))))
      = concat (map (\<lambda>n. issue dry [''git'', ''mv'', n @ ''_test'', n])
                (filter (\<lambda>n. n \<in> set ?roots) (map fst tgt)))"
    by (simp add: comp_def)
  have "follows ?C
      (concat (map (\<lambda>f. issue dry [''git'', ''mv'', str_path f, new_name_of ?roots (path_name f)]) ?files)
       @ map (\<lambda>r. Rmtree (?C @ [r])) (filter (\<lambda>r. r \<noteq> ''.git'') (order ?roots))
       @ concat (map (\<lambda>(a, b). issue dry [''git'', ''mv'', a, b])
              (map (\<lambda>n. (n @ ''_test'', n)) (filter (\<lambda>n. n \<in> set ?roots) (map fst tgt)))))
      (\<lambda>u. True) ?body"
  proof (rule follows_bnd [OF follows_move_targets])
    fix sk
    assume sk: "sk = [] @ map (\<lambda>n. (n @ ''_test'', n))
                    (filter (\<lambda>n. n \<in> set ?roots) (map path_name ?files))"
    show "follows ?C
       (map (\<lambda>r. Rmtree (?C @ [r])) (filter (\<lambda>r. r \<noteq> ''.git'') (order ?roots))
        @ concat (map (\<lambda>(a, b). issue dry [''git'', ''mv'', a, b])
              (map (\<lambda>n. (n @ ''_test'', n)) (filter (\<lambda>n. n \<in> set ?roots) (map fst tgt)))))
       (\<lambda>u. True)
       (bnd (remove_roots (order ?roots)) (\<lambda>u. rename_back W dry t sk))"
    proof (rule follows_bnd [OF follows_remove_roots])
      fix u :: unit
      show "follows ?C
         (concat (map (\<lambda>(a, b). issue dry [''git'', ''mv'', a, b])
              (map (\<lambda>n. (n @ ''_test'', n)) (filter (\<lambda>n. n \<in> set ?roots) (map fst tgt)))))
         (\<lambda>u. True) (rename_back W dry t sk)"
        unfolding sk names append_Nil by (rule follows_rename_back)
    qed
  qed
  then have fb: "follows ?C ?plan (\<lambda>u. True) ?body"
    by (simp only: p1 p3 flatten_plan_def)
  have cd: "chdir (absolute (cwd s) clone_dir) s = (Inr (), ?s1)"
    using root by (simp add: chdir_def absolute_def Let_def)
  have i1: "iterdir (Rel []) ?s1 = (Inr (map (\<lambda>(k, v). child (Rel []) k) root), ?s1)"
    using root by (simp add: iterdir_def)
  have i2: "iterdir target ?s1 = (Inr ?files, ?s1)"
    using tgt by (simp add: iterdir_def)
  have rf: "root_folders_of (map (\<lambda>(k, v). child (Rel []) k) root) = ?roots"
    by (simp only: root_folders_of_def map_path_name_child)
  obtain r2 s2 where b: "?body ?s1 = (r2, s2)" by (cases "?body ?s1")
  from followsD [OF fb _ b] obtain evs rest where
    evs: "trace s2 = trace ?s1 @ evs" "?plan = filter significant evs @ rest"
      "\<forall>a. r2 = Inr a \<longrightarrow> filter significant evs = ?plan"
    by auto
  obtain r3 s3 where c3: "chdir (Abs (cwd s)) s2 = (r3, s3)" by (cases "chdir (Abs (cwd s)) s2")
  have c3': "(\<exists>e. r3 = Inl e \<and> s3 = s2) \<or> (r3 = Inr () \<and> s3 = emit [Chdir (cwd s)] (s2\<lparr>cwd := cwd s\<rparr>))"
    using c3 chdir_cases [of "Abs (cwd s)" s2] by auto
  then obtain fin where fin: "trace s3 = trace s2 @ fin" "filter significant fin = []"
    by auto
  have res: "change_root_directory W order clone_dir target dry t s
               = (case r3 of Inl e \<Rightarrow> Inl e | Inr v \<Rightarrow> r2, s3)"
    using cd i1 i2 rf b c3
    by (simp add: change_root_directory_def working_directory_def bnd_def split: sum.splits)
  have "trace s3 = trace s @ (Chdir ?C # evs @ fin)" using evs fin by simp
  then have ne: "new_events s s3 = Chdir ?C # evs @ fin" by simp
  have sig: "filter significant (new_events s s3) = filter significant evs"
    using ne fin by simp
  show ?thesis
    using res sig evs by (auto split: sum.splits)
qed

theorem change_root_directory_order_witness:
  "fst (change_root_directory (tools (\<lambda>r. None)) (listed_first [''docs'', ''b''])
          clone_dir_example (Rel [''b'']) False 30 crowded_state) = Inr ()
   \<and> removed (new_events crowded_state
        (snd (change_root_directory (tools (\<lambda>r. None)) (listed_first [''docs'', ''b''])
          clone_dir_example (Rel [''b'']) False 30 crowded_state)))
     = [[''work'', ''data'', ''raw'', ''mono'', ''docs''], [''work'', ''data'', ''raw'', ''mono'', ''b'']]
   \<and> filter significant (new_events crowded_state
        (snd (change_root_directory (tools (\<lambda>r. None)) (listed_first [''docs'', ''b''])
          clone_dir_example (Rel [''b'']) False 30 crowded_state)))
     = flatten_plan False [''work'', ''data'', ''raw'', ''mono''] (Rel [''b''])
         [''.git'', ''b'', ''docs''] [''docs'', ''b'', ''.git''] [''a.txt'', ''b'']"
proof -
  let ?root = "[(''.git'', Dir []),
               (''b'', Dir [(''a.txt'', File ''A''), (''b'', Dir [(''c'', File ''C'')])]),
               (''docs'', Dir [(''guide.md'', File ''G'')])]"
  let ?tgt = "[(''a.txt'', File ''A''), (''b'', Dir [(''c'', File ''C'')])]"
  let ?run = "change_root_directory (tools (\<lambda>r. None)) (listed_first [''docs'', ''b''])
                clone_dir_example (Rel [''b'']) False 30 crowded_state"
  have r: "lookup (resolve (cwd crowded_state) clone_dir_example) (fs crowded_state) = Some (Dir ?root)"
    by (simp add: crowded_state_def in_clone_def clone_dir_example_def)
  have g: "lookup (resolve (resolve (cwd crowded_state) clone_dir_example) (Rel [''b'']))
             (fs crowded_state) = Some (Dir ?tgt)"
    by (simp add: crowded_state_def in_clone_def clone_dir_example_def)
  have e: "fst ?run = Inr ()"
    by code_simp
  have m: "removed (new_events crowded_state (snd ?run))
     = [[''work'', ''data'', ''raw'', ''mono'', ''docs''], [''work'', ''data'', ''raw'', ''mono'', ''b'']]"
    by code_simp
  have c: "resolve (cwd crowded_state) clone_dir_example = [''work'', ''data'', ''raw'', ''mono'']"
    by (simp add: crowded_state_def in_clone_def clone_dir_example_def)
  have o: "listed_first [''docs'', ''b''] [''.git'', ''b'', ''docs''] = [''docs'', ''b'', ''.git'']"
    by (simp add: listed_first_def)
  have "filter significant (new_events crowded_state (snd ?run))
     = flatten_plan False [''work'', ''data'', ''raw'', ''mono''] (Rel [''b''])
         [''.git'', ''b'', ''docs''] [''docs'', ''b'', ''.git''] [''a.txt'', ''b'']"
    using change_root_directory_order [OF r g, where dry = False and W = "tools (\<lambda>r. None)"
            and order = "listed_first [''docs'', ''b'']" and t = 30] e
    by (simp add: c o)
  then show ?thesis using e m by simp
qed

section \<open>The layout after root flattening\<close>

lemma lookup_append:
  "lookup (p @ q) t = (case lookup p t of None \<Rightarrow> None | Some n \<Rightarrow> lookup q n)"
  by (induction p arbitrary: t) (auto split: node.splits option.splits)

lemma map_of_map_entry:
  "map_of (map (\<lambda>(k, v). if k = c then (k, g v) else (k, v)) es) c = map_option g (map_of es c)"
  by (induction es) auto

lemma alter_dir_Dir: "\<exists>es'. alter_dir q f (Dir es) = Dir es'"
  by (cases q) auto

lemma lookup_alter_dir:
  "lookup p t = Some n \<Longrightarrow> lookup p (alter_dir (p @ q) f t) = Some (alter_dir q f n)"
proof (induction p arbitrary: t)
  case Nil
  then show ?case by simp
next
  case (Cons c p)
  then obtain es m where t: "t = Dir es" and m: "map_of es c = Some m" and l: "lookup p m = Some n"
    by (auto split: node.splits option.splits)
  show ?case using Cons.IH [OF l] m by (simp add: t map_of_map_entry)
qed

lemma is_dir_prefix: "lookup (w @ r) t = Some (Dir es) \<Longrightarrow> is_dir t w"
proof -
  assume a: "lookup (w @ r) t = Some (Dir es)"
  then obtain n where n: "lookup w t = Some n" "lookup r n = Some (Dir es)"
    by (auto simp: lookup_append split: option.splits)
  then have "\<exists>d. n = Dir d" by (cases r; cases n) auto
  then show ?thesis using n by (auto simp: is_dir_def)
qed

lemma remove_path_local:
  assumes "lookup C t = Some n" "sp \<noteq> []"
  shows "lookup C (remove_path (C @ sp) t) = Some (remove_path sp n)"
  using assms lookup_alter_dir [of C t n "butlast sp"]
  by (simp add: remove_path_def butlast_append)

lemma insert_entry_local:
  assumes "lookup C t = Some (Dir es)"
  shows "lookup C (insert_entry (C @ [d]) n t) = Some (Dir (es @ [(d, n)]))"
  using assms lookup_alter_dir [of C t "Dir es" "[]"]
  by (simp add: insert_entry_def)

lemma split_on_no_sep: "d \<notin> set x \<Longrightarrow> split_on d x = [x]"
  by (induction x) auto

lemma split_on_sep: "d \<notin> set x \<Longrightarrow> split_on d (x @ d # r) = x # split_on d r"
  by (induction x) auto

lemma split_on_join:
  "ps \<noteq> [] \<Longrightarrow> list_all valid_name ps \<Longrightarrow> split_on (CHR ''/'') (join_with ''/'' ps) = ps"
proof (induction "''/''" ps rule: join_with.induct)
  case 1
  then show ?case by simp
next
  case (2 x)
  then show ?case by (simp add: split_on_no_sep valid_name_def)
next
  case (3 x y ys)
  then show ?case by (simp add: split_on_sep valid_name_def)
qed

lemma join_with_hd:
  "ps \<noteq> [] \<Longrightarrow> list_all valid_name ps \<Longrightarrow>
     join_with ''/'' ps \<noteq> [] \<and> hd (join_with ''/'' ps) \<noteq> CHR ''/''"
proof (induction "''/''" ps rule: join_with.induct)
  case 1
  then show ?case by simp
next
  case (2 x)
  then show ?case by (cases x) (auto simp: valid_name_def)
next
  case (3 x y ys)
  then show ?case by (cases x) (auto simp: valid_name_def)
qed

lemma parse_path_str_path:
  "ps \<noteq> [] \<Longrightarrow> list_all valid_name ps \<Longrightarrow> parse_path (str_path (Rel ps)) = Rel ps"
proof -
  assume a: "ps \<noteq> []" "list_all valid_name ps"
  have "filter (\<lambda>c. c \<noteq> []) ps = ps"
    using a(2) by (induction ps) (auto simp: valid_name_def)
  then show ?thesis
    using a split_on_join [OF a] join_with_hd [OF a]
    by (simp add: parse_path_def Let_def)
qed

lemma map_fst_shape [simp]: "map fst (shape es) = map fst es"
  by (induction es) (auto simp: shape_def)

lemma shape_append [simp]: "shape (a @ b) = shape a @ shape b"
  by (simp add: shape_def)

lemma map_of_shape: "map_of (shape es) n = map_option is_Dir (map_of es n)"
  by (induction es) (auto simp: shape_def)

lemma map_of_filter_other: "x \<noteq> y \<Longrightarrow> map_of (filter (\<lambda>(k, v). k \<noteq> x) es) y = map_of es y"
  by (induction es) auto

lemma is_Dir_alter_dir [simp]: "is_Dir (alter_dir q f v) = is_Dir v"
  by (cases q; cases v) auto

lemma remove_path_snoc: "remove_path (q @ [x]) v = alter_dir q (filter (\<lambda>(k, v). k \<noteq> x)) v"
  by (simp add: remove_path_def)

lemma remove_path_single: "remove_path [x] (Dir es) = Dir (filter (\<lambda>(k, v). k \<noteq> x) es)"
  using remove_path_snoc [of "[]" x "Dir es"] by simp

lemma remove_path_Cons_snoc:
  "remove_path (c # q @ [x]) v = alter_dir (c # q) (filter (\<lambda>(k, v). k \<noteq> x)) v"
  using remove_path_snoc [of "c # q" x v] by simp

lemma remove_path_Cons:
  "remove_path (c # q @ [x]) (Dir es)
     = Dir (map (\<lambda>(k, v). if k = c then (k, remove_path (q @ [x]) v) else (k, v)) es)"
  by (auto simp: remove_path_Cons_snoc remove_path_snoc)

lemma shape_remove_path:
  assumes "tp \<noteq> []" "remove_path (tp @ [x]) (Dir es) = Dir es'"
  shows "shape es' = shape es"
proof -
  obtain c q where tp: "tp = c # q" using assms(1) by (cases tp) auto
  have "es' = map (\<lambda>(k, v). if k = c then (k, remove_path (q @ [x]) v) else (k, v)) es"
    using assms(2) by (simp add: tp remove_path_Cons)
  then show ?thesis
    by (simp add: shape_def remove_path_snoc comp_def case_prod_unfold cong: if_cong)
qed

lemma lookup_remove_other:
  "x \<noteq> y \<Longrightarrow> lookup (tp @ [y]) (remove_path (tp @ [x]) n) = lookup (tp @ [y]) n"
proof (induction tp arbitrary: n)
  case Nil
  then show ?case
    by (cases n) (simp_all add: remove_path_snoc [of "[]", simplified] map_of_filter_other)
next
  case (Cons c tp)
  show ?case
  proof (cases n)
    case (File z)
    then show ?thesis by (simp add: remove_path_Cons_snoc)
  next
    case (Dir es)
    show ?thesis
    proof (cases "map_of es c")
      case None
      then show ?thesis by (simp add: Dir remove_path_Cons map_of_map_entry)
    next
      case (Some m)
      then show ?thesis using Cons.IH [OF Cons.prems, of m]
        by (simp add: Dir remove_path_Cons map_of_map_entry)
    qed
  qed
qed

lemma lookup_append_entries:
  "c \<in> fst ` set R \<Longrightarrow> lookup (c # q) (Dir (R @ X)) = lookup (c # q) (Dir R)"
  by (auto simp: map_add_def split: option.splits dest: weak_map_of_SomeI)

lemma tools_git_mv:
  "tools remote [''git'', ''mv'', a, b] t s
     = tool_mv (cwd s) (parse_path a) (parse_path b) (fs s)"
  by (simp add: tools_def)

lemma mv_step:
  assumes c: "cwd s = C" and root: "lookup C (fs s) = Some (Dir es)"
    and sp: "sp \<noteq> []" "list_all valid_name sp"
    and d: "parse_path d = Rel [d]"
    and src: "lookup sp (Dir es) = Some n"
    and dst: "map_of es d = None"
  shows "\<exists>s' es'. run_command (tools remote) [''git'', ''mv'', str_path (Rel sp), d] False t s = (Inr (), s')
            \<and> cwd s' = C \<and> remove_path sp (Dir es) = Dir es'
            \<and> lookup C (fs s') = Some (Dir (es' @ [(d, n)]))"
proof -
  let ?cmd = "[''git'', ''mv'', str_path (Rel sp), d]"
  let ?s1 = "emit [Log INFO (Str (command_line ?cmd))] s"
  obtain es' where es': "remove_path sp (Dir es) = Dir es'"
    using alter_dir_Dir [of "butlast sp" _ es] sp(1) by (auto simp: remove_path_def)
  have nd: "\<not> is_dir (fs s) (C @ [d])"
    using root dst by (simp add: is_dir_def lookup_append)
  have la: "lookup (C @ sp) (fs s) = Some n"
    using root src by (simp add: lookup_append)
  have lb: "lookup (C @ [d]) (fs s) = None"
    using root dst by (simp add: lookup_append)
  have lc: "lookup C (remove_path (C @ sp) (fs s)) = Some (Dir es')"
    using remove_path_local [OF root sp(1)] es' by simp
  then have dc: "is_dir (remove_path (C @ sp) (fs s)) C"
    by (simp add: is_dir_def)
  have mv: "tool_mv C (Rel sp) (Rel [d]) (fs s)
              = (Exited 0, insert_entry (C @ [d]) n (remove_path (C @ sp) (fs s)))"
    using nd la lb dc sp(1) by (simp add: tool_mv_def Let_def)
  have w: "tools remote ?cmd t ?s1
              = (Exited 0, insert_entry (C @ [d]) n (remove_path (C @ sp) (fs s)))"
    using mv c d parse_path_str_path [OF sp] by (simp add: tools_git_mv)
  let ?s' = "emit [Spawn ?cmd, Log INFO (Str ''=== success command'')]
               (?s1\<lparr>fs := insert_entry (C @ [d]) n (remove_path (C @ sp) (fs s))\<rparr>)"
  have "run_command (tools remote) ?cmd False t s = (Inr (), ?s')"
    using w by (simp add: run_command_def Let_def)
  moreover have "cwd ?s' = C" using c by simp
  moreover have "lookup C (fs ?s') = Some (Dir (es' @ [(d, n)]))"
    using insert_entry_local [OF lc] by simp
  ultimately show ?thesis using es' by blast
qed

lemma remove_roots_all:
  assumes "cwd s = C" "lookup C (fs s) = Some (Dir es)" "distinct ns"
    and "list_all (\<lambda>n. n = ''.git'' \<or> map_of (shape es) n = Some True) ns"
  shows "\<exists>s'. remove_roots ns s = (Inr (), s') \<and> cwd s' = C
           \<and> lookup C (fs s') = Some (Dir (filter (\<lambda>(k, v). k \<notin> set ns \<or> k = ''.git'') es))"
  using assms
proof (induction ns arbitrary: s es)
  case Nil
  then show ?case by (simp add: return_def)
next
  case (Cons n ns)
  show ?case
  proof (cases "n = ''.git''")
    case True
    have "list_all (\<lambda>n. n = ''.git'' \<or> map_of (shape es) n = Some True) ns" "distinct ns"
      using Cons.prems by simp_all
    from Cons.IH [OF Cons.prems(1,2) this(2,1)] obtain s' where
      s': "remove_roots ns s = (Inr (), s')" "cwd s' = C"
        "lookup C (fs s') = Some (Dir (filter (\<lambda>(k, v). k \<notin> set ns \<or> k = ''.git'') es))"
      by blast
    have "filter (\<lambda>(k, v). k \<notin> set ns \<or> k = ''.git'') es
            = filter (\<lambda>(k, v). k \<notin> set (n # ns) \<or> k = ''.git'') es"
      using True by (induction es) auto
    then show ?thesis using s' True by simp
  next
    case False
    then have "map_of (shape es) n = Some True" using Cons.prems(4) by simp
    then obtain d where d: "map_of es n = Some (Dir d)"
      by (auto simp: map_of_shape) (metis is_Dir.elims(2))
    let ?s0 = "emit [Log INFO (Str (''remove: '' @ n))] s"
    let ?es1 = "filter (\<lambda>(k, v). k \<noteq> n) es"
    let ?s1 = "emit [Rmtree (C @ [n])] (?s0\<lparr>fs := remove_path (C @ [n]) (fs s)\<rparr>)"
    have l: "lookup (C @ [n]) (fs s) = Some (Dir d)"
      using Cons.prems(2) d by (simp add: lookup_append)
    have rm: "rmtree (Rel [n]) ?s0 = (Inr (), ?s1)"
      using l Cons.prems(1) by (simp add: rmtree_def Let_def)
    have c1: "cwd ?s1 = C" using Cons.prems(1) by simp
    have l1: "lookup C (fs ?s1) = Some (Dir ?es1)"
      using remove_path_local [OF Cons.prems(2), of "[n]"] by (simp add: remove_path_single)
    have sh: "list_all (\<lambda>m. m = ''.git'' \<or> map_of (shape ?es1) m = Some True) ns"
    proof -
      have "\<And>m. m \<in> set ns \<Longrightarrow> map_of (shape ?es1) m = map_of (shape es) m"
      proof -
        fix m assume "m \<in> set ns"
        then have "n \<noteq> m" using Cons.prems(3) by auto
        then show "map_of (shape ?es1) m = map_of (shape es) m"
          by (simp add: map_of_shape map_of_filter_other)
      qed
      then show ?thesis using Cons.prems(4) by (auto simp: list_all_iff)
    qed
    have "distinct ns" using Cons.prems(3) by simp
    from Cons.IH [OF c1 l1 this sh] obtain s' where
      s': "remove_roots ns ?s1 = (Inr (), s')" "cwd s' = C"
        "lookup C (fs s') = Some (Dir (filter (\<lambda>(k, v). k \<notin> set ns \<or> k = ''.git'') ?es1))"
      by blast
    have "filter (\<lambda>(k, v). k \<notin> set ns \<or> k = ''.git'') ?es1
            = filter (\<lambda>(k, v). k \<notin> set (n # ns) \<or> k = ''.git'') es"
      using False by (induction es) auto
    moreover have "remove_roots (n # ns) s = (Inr (), s')"
    proof -
      have "remove_roots (n # ns) s = bnd (rmtree (Rel [n])) (\<lambda>u. remove_roots ns) ?s0"
        using False by (simp add: bnd_logger_info)
      also have "\<dots> = remove_roots ns ?s1" using rm by (simp add: bnd_def)
      finally show ?thesis using s'(1) by simp
    qed
    ultimately show ?thesis using s' by simp
  qed
qed

lemma parse_names [simp]:
  "parse_path ''a.txt'' = Rel [''a.txt'']" "parse_path ''b'' = Rel [''b'']"
  "parse_path ''b_test'' = Rel [''b_test'']"
  by (simp_all add: parse_path_def)

lemma valid_names [simp]: "valid_name ''a.txt''" "valid_name ''b''" "valid_name ''b_test''"
  by (simp_all add: valid_name_def)

lemma lookup_target_entry:
  "lookup tp (Dir root) = Some (Dir tgt) \<Longrightarrow> lookup (tp @ [x]) (Dir root) = map_of tgt x"
  by (simp add: lookup_append split: option.splits)

lemma two_moves:
  assumes c: "cwd s = C" and root: "lookup C (fs s) = Some (Dir root)"
    and tp: "tp \<noteq> []" "list_all valid_name tp"
    and tgt: "lookup tp (Dir root) = Some (Dir tgt)"
    and x: "map_of tgt x = Some nx" "valid_name x" "parse_path dx = Rel [dx]"
    and y: "map_of tgt y = Some ny" "valid_name y" "parse_path dy = Rel [dy]"
    and ne: "x \<noteq> y" "dx \<noteq> dy"
    and fresh: "dx \<notin> fst ` set root" "dy \<notin> fst ` set root"
  shows "\<exists>s1 s2 R.
      run_command (tools remote) [''git'', ''mv'', str_path (Rel (tp @ [x])), dx] False t
        (emit [Log INFO (Str m1)] s) = (Inr (), s1)
    \<and> run_command (tools remote) [''git'', ''mv'', str_path (Rel (tp @ [y])), dy] False t
        (emit [Log INFO (Str m2)] s1) = (Inr (), s2)
    \<and> cwd s2 = C \<and> lookup C (fs s2) = Some (Dir (R @ [(dx, nx), (dy, ny)]))
    \<and> shape R = shape root"
proof -
  obtain c1 q where tpc: "tp = c1 # q" using tp(1) by (cases tp) auto
  have c1: "c1 \<in> fst ` set root"
    using tgt by (auto simp: tpc split: option.splits dest: map_of_SomeD intro: rev_image_eqI)
  have nroot: "\<And>k. k \<notin> fst ` set root \<Longrightarrow> map_of root k = None"
    by (simp add: map_of_eq_None_iff)
  let ?s0 = "emit [Log INFO (Str m1)] s"
  have "\<exists>s' es'. run_command (tools remote) [''git'', ''mv'', str_path (Rel (tp @ [x])), dx] False t ?s0 = (Inr (), s')
            \<and> cwd s' = C \<and> remove_path (tp @ [x]) (Dir root) = Dir es'
            \<and> lookup C (fs s') = Some (Dir (es' @ [(dx, nx)]))"
    apply (rule mv_step)
    using c root tp x fresh tgt by (simp_all add: lookup_target_entry nroot)
  then obtain s1 R1 where
    s1: "run_command (tools remote) [''git'', ''mv'', str_path (Rel (tp @ [x])), dx] False t ?s0 = (Inr (), s1)"
      "cwd s1 = C" "remove_path (tp @ [x]) (Dir root) = Dir R1"
      "lookup C (fs s1) = Some (Dir (R1 @ [(dx, nx)]))"
    by blast
  have sh1: "shape R1 = shape root" using shape_remove_path [OF tp(1) s1(3)] .
  then have n1: "fst ` set R1 = fst ` set root"
    by (metis map_fst_shape set_map)
  let ?s1 = "emit [Log INFO (Str m2)] s1"
  have src2: "lookup (tp @ [y]) (Dir (R1 @ [(dx, nx)])) = Some ny"
  proof -
    have "lookup (c1 # (q @ [y])) (Dir (R1 @ [(dx, nx)])) = lookup (c1 # (q @ [y])) (Dir R1)"
      by (rule lookup_append_entries) (simp add: c1 n1)
    then have "lookup (tp @ [y]) (Dir (R1 @ [(dx, nx)])) = lookup (tp @ [y]) (Dir R1)"
      by (simp only: tpc append_Cons)
    also have "\<dots> = lookup (tp @ [y]) (Dir root)"
      using lookup_remove_other [OF ne(1), of tp "Dir root"] s1(3) by simp
    finally show ?thesis using y(1) tgt by (simp add: lookup_target_entry)
  qed
  have dst2: "map_of (R1 @ [(dx, nx)]) dy = None"
    using fresh(2) n1 ne(2) by (simp add: map_of_eq_None_iff)
  have "\<exists>s' es'. run_command (tools remote) [''git'', ''mv'', str_path (Rel (tp @ [y])), dy] False t ?s1 = (Inr (), s')
            \<and> cwd s' = C \<and> remove_path (tp @ [y]) (Dir (R1 @ [(dx, nx)])) = Dir es'
            \<and> lookup C (fs s') = Some (Dir (es' @ [(dy, ny)]))"
    apply (rule mv_step)
    using s1 tp y src2 dst2 by simp_all
  then obtain s2 R2' where
    s2: "run_command (tools remote) [''git'', ''mv'', str_path (Rel (tp @ [y])), dy] False t ?s1 = (Inr (), s2)"
      "cwd s2 = C" "remove_path (tp @ [y]) (Dir (R1 @ [(dx, nx)])) = Dir R2'"
      "lookup C (fs s2) = Some (Dir (R2' @ [(dy, ny)]))"
    by blast
  obtain R2 where R2: "remove_path (tp @ [y]) (Dir R1) = Dir R2"
    using alter_dir_Dir [of tp _ R1] by (auto simp: remove_path_snoc)
  have sh2: "shape R2 = shape R1" using shape_remove_path [OF tp(1) R2] .
  have "dx \<noteq> c1" using c1 fresh(1) by auto
  then have "R2' = R2 @ [(dx, nx)]"
    using s2(3) R2 by (simp add: tpc remove_path_Cons)
  then have "lookup C (fs s2) = Some (Dir (R2 @ [(dx, nx), (dy, ny)]))" using s2(4) by simp
  then show ?thesis using s1(1) s2(1,2) sh1 sh2 by metis
qed

lemma names_all_dirs:
  assumes "list_all (\<lambda>(k, v). k = ''.git'' \<or> v) sh" "n \<in> fst ` set sh"
  shows "n = ''.git'' \<or> map_of sh n = Some True"
  using assms by (induction sh) auto

lemma filter_names_append:
  assumes "fst ` set R \<subseteq> set ns" "fst ` set X \<inter> set ns = {}" "list_all (\<lambda>(k, v). k \<noteq> ''.git'') X"
  shows "filter (\<lambda>(k, v). k \<notin> set ns \<or> k = ''.git'') (R @ X)
           = filter (\<lambda>(k, v). k = ''.git'') R @ X"
proof -
  have "filter (\<lambda>(k, v). k \<notin> set ns \<or> k = ''.git'') R = filter (\<lambda>(k, v). k = ''.git'') R"
    using assms(1) by (induction R) auto
  moreover have "filter (\<lambda>(k, v). k \<notin> set ns \<or> k = ''.git'') X = X"
    using assms(2,3) by (induction X) auto
  ultimately show ?thesis by simp
qed

lemma map_of_git_only:
  "k \<noteq> ''.git'' \<Longrightarrow> map_of (filter (\<lambda>(k, v). k = ''.git'') R @ X) k = map_of X k"
  by (induction R) auto

lemma filter_git_only:
  "k \<noteq> ''.git'' \<Longrightarrow> filter (\<lambda>(j, v). j \<noteq> k) (filter (\<lambda>(k, v). k = ''.git'') R)
      = filter (\<lambda>(k, v). k = ''.git'') R"
  by (induction R) auto

lemma phases_2_3:
  assumes c: "cwd s = C" and l: "lookup C (fs s) = Some (Dir (R @ X))"
    and X: "X = [(''a.txt'', na), (''b_test'', Dir bs)] \<or> X = [(''b_test'', Dir bs), (''a.txt'', na)]"
    and names: "set ns = fst ` set R" "distinct ns"
    and dirs: "list_all (\<lambda>(k, v). k = ''.git'' \<or> v) (shape R)"
    and fresh: "''a.txt'' \<notin> set ns" "''b_test'' \<notin> set ns"
  shows "\<exists>s'. bnd (remove_roots ns) (\<lambda>u. rename_back (tools remote) False t [(''b_test'', ''b'')]) s
             = (Inr (), s')
          \<and> cwd s' = C
          \<and> lookup C (fs s') = Some (Dir (filter (\<lambda>(k, v). k = ''.git'') R @ [(''a.txt'', na), (''b'', Dir bs)]))"
proof -
  have nR: "fst ` set R = set ns" using names(1) by simp
  have "list_all (\<lambda>n. n = ''.git'' \<or> map_of (shape (R @ X)) n = Some True) ns"
  proof -
    have "\<And>n. n \<in> set ns \<Longrightarrow> n = ''.git'' \<or> map_of (shape (R @ X)) n = Some True"
    proof -
      fix n assume n: "n \<in> set ns"
      then have "n \<in> fst ` set (shape R)" using nR by (metis map_fst_shape set_map)
      from names_all_dirs [OF dirs this]
      show "n = ''.git'' \<or> map_of (shape (R @ X)) n = Some True" by auto
    qed
    then show ?thesis by (simp add: list_all_iff)
  qed
  from remove_roots_all [OF c l names(2) this] obtain s1 where
    s1: "remove_roots ns s = (Inr (), s1)" "cwd s1 = C"
      "lookup C (fs s1) = Some (Dir (filter (\<lambda>(k, v). k \<notin> set ns \<or> k = ''.git'') (R @ X)))"
    by blast
  have "filter (\<lambda>(k, v). k \<notin> set ns \<or> k = ''.git'') (R @ X) = filter (\<lambda>(k, v). k = ''.git'') R @ X"
    apply (rule filter_names_append)
    using nR X fresh by auto
  then have l1: "lookup C (fs s1) = Some (Dir (filter (\<lambda>(k, v). k = ''.git'') R @ X))"
    using s1(3) by simp
  let ?G = "filter (\<lambda>(k, v). k = ''.git'') R"
  let ?s1 = "emit [Log INFO (Str (''move: '' @ ''b_test'' @ '' to '' @ ''b''))] s1"
  have "\<exists>s' es'. run_command (tools remote) [''git'', ''mv'', str_path (Rel [''b_test'']), ''b''] False t ?s1 = (Inr (), s')
            \<and> cwd s' = C \<and> remove_path [''b_test''] (Dir (?G @ X)) = Dir es'
            \<and> lookup C (fs s') = Some (Dir (es' @ [(''b'', Dir bs)]))"
  proof -
    have src: "lookup [''b_test''] (Dir (?G @ X)) = Some (Dir bs)"
      using X by (auto simp: map_of_git_only simp del: map_of_append)
    have dst: "map_of (?G @ X) ''b'' = None"
      using X by (auto simp: map_of_git_only simp del: map_of_append)
    have c1': "cwd ?s1 = C" using s1(2) by simp
    have l1': "lookup C (fs ?s1) = Some (Dir (?G @ X))" using l1 by simp
    show ?thesis
      by (rule mv_step [OF c1' l1' _ _ _ src dst]) simp_all
  qed
  then obtain s2 es' where
    s2: "run_command (tools remote) [''git'', ''mv'', ''b_test'', ''b''] False t ?s1 = (Inr (), s2)"
      "cwd s2 = C" "remove_path [''b_test''] (Dir (?G @ X)) = Dir es'"
      "lookup C (fs s2) = Some (Dir (es' @ [(''b'', Dir bs)]))"
    by auto
  have fg: "filter (\<lambda>(j, v). j \<noteq> ''b_test'') ?G = ?G"
    by (rule filter_git_only) simp
  have "es' = ?G @ [(''a.txt'', na)]"
    using s2(3) X fg by (auto simp: remove_path_single simp del: filter_filter)
  then have fin: "lookup C (fs s2) = Some (Dir (?G @ [(''a.txt'', na), (''b'', Dir bs)]))"
    using s2(4) by simp
  have "bnd (remove_roots ns) (\<lambda>u. rename_back (tools remote) False t [(''b_test'', ''b'')]) s
          = (Inr (), s2)"
    using s1(1) s2(1) by (simp add: bnd_def logger_info_def return_def)
  then show ?thesis using s2(2) fin by blast
qed

lemma map_fst_filter_key: "map fst (filter (\<lambda>(k, v). P k) es) = filter P (map fst es)"
  by (induction es) auto

lemma phase_1:
  assumes c: "cwd s = C" and root: "lookup C (fs s) = Some (Dir root)"
    and tp: "tp \<noteq> []" "list_all valid_name tp"
    and tgt: "lookup tp (Dir root) = Some (Dir tgt)"
    and ents: "tgt = [(''a.txt'', na), (''b'', Dir bs)] \<or> tgt = [(''b'', Dir bs), (''a.txt'', na)]"
    and b: "''b'' \<in> fst ` set root"
    and fresh: "''a.txt'' \<notin> fst ` set root" "''b_test'' \<notin> fst ` set root"
    and ns: "set ns = fst ` set root"
  shows "\<exists>s' R X. move_targets (tools remote) ns False t (map (\<lambda>(k, v). child (Rel tp) k) tgt) [] s
              = (Inr [(''b_test'', ''b'')], s')
          \<and> cwd s' = C \<and> lookup C (fs s') = Some (Dir (R @ X)) \<and> shape R = shape root
          \<and> (X = [(''a.txt'', na), (''b_test'', Dir bs)] \<or> X = [(''b_test'', Dir bs), (''a.txt'', na)])"
  using ents
proof
  assume e: "tgt = [(''a.txt'', na), (''b'', Dir bs)]"
  let ?m1 = "''move: '' @ str_path (Rel (tp @ [''a.txt''])) @ '' to '' @ ''a.txt''"
  let ?m2 = "''move: '' @ str_path (Rel (tp @ [''b''])) @ '' to '' @ ''b_test''"
  from two_moves [OF c root tp tgt, of "''a.txt''" na "''a.txt''" "''b''" "Dir bs" "''b_test''"
      remote t ?m1 ?m2]
  obtain s1 s2 R where
    r: "run_command (tools remote) [''git'', ''mv'', str_path (Rel (tp @ [''a.txt''])), ''a.txt''] False t
          (emit [Log INFO (Str ?m1)] s) = (Inr (), s1)"
       "run_command (tools remote) [''git'', ''mv'', str_path (Rel (tp @ [''b''])), ''b_test''] False t
          (emit [Log INFO (Str ?m2)] s1) = (Inr (), s2)"
       "cwd s2 = C" "lookup C (fs s2) = Some (Dir (R @ [(''a.txt'', na), (''b_test'', Dir bs)]))"
       "shape R = shape root"
    using e fresh by auto
  have "move_targets (tools remote) ns False t (map (\<lambda>(k, v). child (Rel tp) k) tgt) [] s
          = (Inr [(''b_test'', ''b'')], s2)"
    using r(1,2) b fresh ns
    by (simp add: e Let_def path_name_def logger_info_def bnd_def return_def)
  then show ?thesis using r(3,4,5) by blast
next
  assume e: "tgt = [(''b'', Dir bs), (''a.txt'', na)]"
  let ?m1 = "''move: '' @ str_path (Rel (tp @ [''b''])) @ '' to '' @ ''b_test''"
  let ?m2 = "''move: '' @ str_path (Rel (tp @ [''a.txt''])) @ '' to '' @ ''a.txt''"
  from two_moves [OF c root tp tgt, of "''b''" "Dir bs" "''b_test''" "''a.txt''" na "''a.txt''"
      remote t ?m1 ?m2]
  obtain s1 s2 R where
    r: "run_command (tools remote) [''git'', ''mv'', str_path (Rel (tp @ [''b''])), ''b_test''] False t
          (emit [Log INFO (Str ?m1)] s) = (Inr (), s1)"
       "run_command (tools remote) [''git'', ''mv'', str_path (Rel (tp @ [''a.txt''])), ''a.txt''] False t
          (emit [Log INFO (Str ?m2)] s1) = (Inr (), s2)"
       "cwd s2 = C" "lookup C (fs s2) = Some (Dir (R @ [(''b_test'', Dir bs), (''a.txt'', na)]))"
       "shape R = shape root"
    using e fresh by auto
  have "move_targets (tools remote) ns False t (map (\<lambda>(k, v). child (Rel tp) k) tgt) [] s
          = (Inr [(''b_test'', ''b'')], s2)"
    using r(1,2) b fresh ns
    by (simp add: e Let_def path_name_def logger_info_def bnd_def return_def)
  then show ?thesis using r(3,4,5) by blast
qed

text \<open>
  C2, as the code has it. Take a clone whose root lists distinct names, all of them
  directories except possibly \<^verbatim>\<open>.git\<close>, among them \<^verbatim>\<open>b\<close> and neither \<^verbatim>\<open>a.txt\<close> nor \<^verbatim>\<open>b_test\<close>,
  and whose target directory holds exactly \<^verbatim>\<open>a.txt\<close> and the directory \<^verbatim>\<open>b\<close>, listed in either
  order. With the external tools behaving as \<open>tools\<close>, and in whatever order the set of the
  root names iterates (each of its names once), one root flattening outside a dry run
  returns, restores the working directory and leaves a root that lists \<^verbatim>\<open>.git\<close> (if it was
  there), \<^verbatim>\<open>a.txt\<close> and \<^verbatim>\<open>b\<close> and nothing else: \<^verbatim>\<open>a.txt\<close> and \<^verbatim>\<open>b\<close> are the entries of the
  target directory, the old \<^verbatim>\<open>b\<close> is gone and no \<^verbatim>\<open>b_test\<close> is left.
\<close>

theorem root_flattening_layout:
  assumes root: "lookup (cwd s @ cp) (fs s) = Some (Dir root)"
    and dist: "distinct (map fst root)"
    and dirs: "list_all (\<lambda>(k, v). k = ''.git'' \<or> is_Dir v) root"
    and tp: "tp \<noteq> []" "list_all valid_name tp"
    and tgt: "lookup tp (Dir root) = Some (Dir tgt)"
    and ents: "tgt = [(''a.txt'', na), (''b'', Dir bs)] \<or> tgt = [(''b'', Dir bs), (''a.txt'', na)]"
    and b: "''b'' \<in> fst ` set root"
    and fresh: "''a.txt'' \<notin> fst ` set root" "''b_test'' \<notin> fst ` set root"
    and ord: "distinct (order (map fst root))" "set (order (map fst root)) = set (map fst root)"
  shows "\<exists>s' final. change_root_directory (tools remote) order (Rel cp) (Rel tp) False t s
                       = (Inr (), s')
          \<and> cwd s' = cwd s
          \<and> lookup (cwd s @ cp) (fs s') = Some (Dir final)
          \<and> map fst final = filter (\<lambda>k. k = ''.git'') (map fst root) @ [''a.txt'', ''b'']
          \<and> map_of final ''a.txt'' = Some na \<and> map_of final ''b'' = Some (Dir bs)"
proof -
  let ?C = "cwd s @ cp"
  let ?W = "tools remote"
  let ?ns = "map fst root"
  let ?files = "map (\<lambda>(k, v). child (Rel tp) k) tgt"
  let ?s1 = "emit [Chdir ?C] (s\<lparr>cwd := ?C\<rparr>)"
  have cd: "chdir (absolute (cwd s) (Rel cp)) s = (Inr (), ?s1)"
    using root by (simp add: chdir_def absolute_def Let_def)
  have i1: "iterdir (Rel []) ?s1 = (Inr (map (\<lambda>(k, v). child (Rel []) k) root), ?s1)"
    using root by (simp add: iterdir_def)
  have "lookup (?C @ tp) (fs s) = (case lookup ?C (fs s) of None \<Rightarrow> None | Some n \<Rightarrow> lookup tp n)"
    by (rule lookup_append)
  then have lt: "lookup (?C @ tp) (fs s) = Some (Dir tgt)" using root tgt by simp
  have i2: "iterdir (Rel tp) ?s1 = (Inr ?files, ?s1)"
    using lt by (simp add: iterdir_def)
  have rf: "root_folders_of (map (\<lambda>(k, v). child (Rel []) k) root) = ?ns"
    by (simp only: root_folders_of_def map_path_name_child)
  have c1: "cwd ?s1 = ?C" by simp
  have l1: "lookup ?C (fs ?s1) = Some (Dir root)" using root by simp
  from phase_1 [OF c1 l1 tp tgt ents b fresh, of ?ns remote t]
  obtain s2 R X where
    p1: "move_targets ?W ?ns False t ?files [] ?s1 = (Inr [(''b_test'', ''b'')], s2)"
      "cwd s2 = ?C" "lookup ?C (fs s2) = Some (Dir (R @ X))" "shape R = shape root"
      "X = [(''a.txt'', na), (''b_test'', Dir bs)] \<or> X = [(''b_test'', Dir bs), (''a.txt'', na)]"
    by auto
  have nR: "map fst R = ?ns" using p1(4) by (metis map_fst_shape)
  have "list_all (\<lambda>(k, v). k = ''.git'' \<or> v) (shape root)"
    using dirs by (simp add: shape_def list_all_iff case_prod_unfold)
  then have dR: "list_all (\<lambda>(k, v). k = ''.git'' \<or> v) (shape R)"
    by (simp only: p1(4))
  have f1: "''a.txt'' \<notin> set (order ?ns)" "''b_test'' \<notin> set (order ?ns)"
    using fresh ord(2) by simp_all
  have oR: "set (order ?ns) = fst ` set R" using ord(2) nR by (metis set_map)
  from phases_2_3 [OF p1(2,3,5) oR ord(1) dR f1, of remote t]
  obtain s3 where
    p3: "bnd (remove_roots (order ?ns)) (\<lambda>u. rename_back ?W False t [(''b_test'', ''b'')]) s2
           = (Inr (), s3)"
      "cwd s3 = ?C"
      "lookup ?C (fs s3) = Some (Dir (filter (\<lambda>(k, v). k = ''.git'') R @ [(''a.txt'', na), (''b'', Dir bs)]))"
    by blast
  let ?final = "filter (\<lambda>(k, v). k = ''.git'') R @ [(''a.txt'', na), (''b'', Dir bs)]"
  have body: "bnd (iterdir (Rel [])) (\<lambda>root_entries.
        bnd (iterdir (Rel tp)) (\<lambda>target_files.
        bnd (move_targets ?W (root_folders_of root_entries) False t target_files [])
          (\<lambda>skip_folders.
        bnd (remove_roots (order (root_folders_of root_entries))) (\<lambda>u.
        rename_back ?W False t skip_folders)))) ?s1 = (Inr (), s3)"
    using i1 i2 rf p1(1) p3(1) by (simp add: bnd_def)
  have "is_dir (fs s3) (cwd s)" using is_dir_prefix [OF p3(3)] .
  then have restore: "chdir (Abs (cwd s)) s3 = (Inr (), emit [Chdir (cwd s)] (s3\<lparr>cwd := cwd s\<rparr>))"
    by (rule chdir_Abs_is_dir)
  let ?s4 = "emit [Chdir (cwd s)] (s3\<lparr>cwd := cwd s\<rparr>)"
  have res: "change_root_directory ?W order (Rel cp) (Rel tp) False t s = (Inr (), ?s4)"
    using cd body restore by (simp add: change_root_directory_def working_directory_def)
  have "map fst ?final = filter (\<lambda>k. k = ''.git'') ?ns @ [''a.txt'', ''b'']"
    by (simp add: map_fst_filter_key nR)
  moreover have "map_of ?final ''a.txt'' = Some na" "map_of ?final ''b'' = Some (Dir bs)"
    by (simp_all add: map_of_git_only del: map_of_append)
  moreover have "cwd ?s4 = cwd s" "lookup ?C (fs ?s4) = Some (Dir ?final)"
    using p3(3) by simp_all
  ultimately show ?thesis using res by blast
qed

theorem root_flattening_layout_witness:
  "\<exists>s' final.
     change_root_directory (tools (\<lambda>r. None)) (listed_first [''docs'', ''b''])
       (Rel [''data'', ''raw'', ''mono'']) (Rel [''b'']) False 30 crowded_state = (Inr (), s')
     \<and> cwd s' = [''work'']
     \<and> lookup [''work'', ''data'', ''raw'', ''mono''] (fs s') = Some (Dir final)
     \<and> map fst final = [''.git'', ''a.txt'', ''b'']
     \<and> map_of final ''a.txt'' = Some (File ''A'')
     \<and> map_of final ''b'' = Some (Dir [(''c'', File ''C'')])"
proof -
  let ?root = "[(''.git'', Dir []),
               (''b'', Dir [(''a.txt'', File ''A''), (''b'', Dir [(''c'', File ''C'')])]),
               (''docs'', Dir [(''guide.md'', File ''G'')])]"
  let ?tgt = "[(''a.txt'', File ''A''), (''b'', Dir [(''c'', File ''C'')])]"
  have r: "lookup (cwd crowded_state @ [''data'', ''raw'', ''mono'']) (fs crowded_state)
             = Some (Dir ?root)"
    by (simp add: crowded_state_def in_clone_def)
  have 1: "distinct (map fst ?root)" by simp
  have 2: "list_all (\<lambda>(k, v). k = ''.git'' \<or> is_Dir v) ?root" by simp
  have 3: "[''b''] \<noteq> []" "list_all valid_name [''b'']" by (simp_all add: valid_name_def)
  have 4: "lookup [''b''] (Dir ?root) = Some (Dir ?tgt)" by simp
  have 5: "?tgt = [(''a.txt'', File ''A''), (''b'', Dir [(''c'', File ''C'')])]
         \<or> ?tgt = [(''b'', Dir [(''c'', File ''C'')]), (''a.txt'', File ''A'')]"
    by simp
  have 6: "''b'' \<in> fst ` set ?root" "''a.txt'' \<notin> fst ` set ?root" "''b_test'' \<notin> fst ` set ?root"
    by simp_all
  have 7: "distinct (listed_first [''docs'', ''b''] (map fst ?root))"
    "set (listed_first [''docs'', ''b''] (map fst ?root)) = set (map fst ?root)"
    by (rule listed_first_iterates)+
  have c: "cwd crowded_state = [''work'']" by (simp add: crowded_state_def in_clone_def)
  show ?thesis
    using root_flattening_layout [where order = "listed_first [''docs'', ''b'']"
            and remote = "\<lambda>r. None" and t = 30, OF r 1 2 3 4 5 6 7]
    by (simp add: c)
qed

text \<open>
  C2 as the claim states it fails when the root's entry \<^verbatim>\<open>b\<close> is a regular file. The root
  here lists \<^verbatim>\<open>.git\<close>, the file \<^verbatim>\<open>b\<close> and the directory \<^verbatim>\<open>libs\<close>, and the target directory is
  \<^verbatim>\<open>libs/widget\<close>. In each of the six orders in which the set of the three root names can
  iterate, the two moves happen and then \<^verbatim>\<open>shutil.rmtree\<close> raises \<^verbatim>\<open>NotADirectoryError\<close> on \<^verbatim>\<open>b\<close>:
  the old \<^verbatim>\<open>b\<close> is still there, the directory that should have become \<^verbatim>\<open>b\<close> is left behind
  as \<^verbatim>\<open>b_test\<close>.
\<close>

theorem root_flattening_file_counterexample:
  "map (\<lambda>first.
          let r = change_root_directory (tools (\<lambda>r. None)) (listed_first first) clone_dir_example
                    (Rel [''libs'', ''widget'']) False 30 blocked_state
          in (fst r,
              lookup [''work'', ''data'', ''raw'', ''mono'', ''b''] (fs (snd r)),
              lookup [''work'', ''data'', ''raw'', ''mono'', ''b_test''] (fs (snd r))))
     [[''.git'', ''b'', ''libs''], [''.git'', ''libs'', ''b''], [''b'', ''.git'', ''libs''],
      [''b'', ''libs'', ''.git''], [''libs'', ''.git'', ''b''], [''libs'', ''b'', ''.git'']]
   = replicate 6 (Inl NotADirectoryError, Some (File ''x''), Some (Dir [(''c'', File ''C'')]))"
  by code_simp

section \<open>Dry runs\<close>

text \<open>
  C1 does not hold of the code. With a clone on disk, a dry run of the whole script
  creates no process, as claimed, but root flattening calls \<^verbatim>\<open>shutil.rmtree\<close> without looking
  at the dry-run flag: the run returns normally and has removed the root entry \<^verbatim>\<open>b\<close> of the
  clone, whose root holds only \<^verbatim>\<open>.git\<close> afterwards. The root has the two names \<^verbatim>\<open>.git\<close> and
  \<^verbatim>\<open>b\<close>; the statement is for both orders in which their set can iterate, and gives for each
  the result of the run, the processes created, the directories removed and the root of the
  clone at the end.
\<close>

theorem dry_run_removes_root_entries:
  "map (\<lambda>first.
          let r = main never_returns (listed_first first) (example_config\<lparr>dry_run := True\<rparr>)
                    cloned_state
          in (fst r, spawned (trace (snd r)), removed (trace (snd r)),
              lookup [''work'', ''data'', ''raw'', ''mono''] (fs (snd r))))
     [[''.git'', ''b''], [''b'', ''.git'']]
   = replicate 2
       (Inr (), [], [[''work'', ''data'', ''raw'', ''mono'', ''b'']], Some (Dir [(''.git'', Dir [])]))"
  by code_simp

text \<open>
  C4 does not hold of the code. Started where no clone is on disk, a dry run logs four
  command lines and then raises \<^verbatim>\<open>FileNotFoundError\<close>: the history filter step changes into
  the clone's directory, which only the skipped clone command would have created. The real
  run with the same configuration, the tools behaving as \<open>tools\<close>, returns after seventeen
  processes. The root of the clone has the two names \<^verbatim>\<open>.git\<close> and \<^verbatim>\<open>b\<close> when it is flattened;
  the statement is for both orders in which their set can iterate, and gives for each the
  result and the logged command lines of the dry run, then the result and the processes of
  the real run.
\<close>

theorem dry_run_log_stops_at_the_clone:
  "map (\<lambda>first.
          let dry = main (tools example_remote) (listed_first first)
                      (example_config\<lparr>dry_run := True\<rparr>) start_state;
              real = main (tools example_remote) (listed_first first) example_config start_state
          in (fst dry, logged_commands (trace (snd dry)), fst real, spawned (trace (snd real))))
     [[''.git'', ''b''], [''b'', ''.git'']]
   = replicate 2
      (Inl FileNotFoundError,
       map command_line
         [[''git'', ''--version''], [''git'', ''filter-repo'', ''--version''],
          [''gh'', ''--version''],
          [''gh'', ''repo'', ''clone'', ''org/mono'', ''/work/data/raw/mono'']],
       Inr (),
       [[''git'', ''--version''], [''git'', ''filter-repo'', ''--version''],
        [''gh'', ''--version''],
        [''gh'', ''repo'', ''clone'', ''org/mono'', ''/work/data/raw/mono''],
        [''git'', ''filter-repo'', ''--path'', ''b''],
        [''git'', ''mv'', ''b/a.txt'', ''a.txt''],
        [''git'', ''mv'', ''b/b'', ''b_test''],
        [''git'', ''mv'', ''b/index.md'', ''index.md''],
        [''git'', ''mv'', ''b_test'', ''b''], [''git'', ''add'', ''.''],
        [''git'', ''commit'', ''-m'', ''chore: change root directory.''],
        [''git'', ''mv'', ''index.md'', ''README.md''],
        [''git'', ''add'', ''.''],
        [''git'', ''commit'', ''-m'', ''chore: change filenames.''],
        [''gh'', ''repo'', ''create'', ''org/widget'', ''--private''],
        [''git'', ''remote'', ''add'', ''upstream'', ''https://github.com/org/widget.git''],
        [''git'', ''push'', ''upstream'', ''master'']])"
  by code_simp

end
